theory Spec2Isabelle
  imports Complex_Main
begin

section \<open>Data model\<close>

text \<open>
  The traffic engine of the road game (\<^verbatim>\<open>src/components/RoadGame.tsx\<close>, \<^verbatim>\<open>src/utils.ts\<close>).
  JavaScript numbers are idealised as real numbers: arithmetic is exact, there is no
  rounding, overflow, infinity or NaN. A string key \<^verbatim>\<open>`${p.x},${p.y}`\<close> determines the
  coordinate pair it was printed from and is parsed back to it, so a key is modelled
  by the point itself.
\<close>

record point =
  x :: real
  y :: real

text \<open>
  A road; the field \<^verbatim>\<open>id\<close> is \<open>rid\<close> and \<^verbatim>\<open>end\<close> is \<open>endp\<close> here. An absent
  \<^verbatim>\<open>controlPoint\<close> (a straight road) is \<open>None\<close>.
\<close>

record road =
  rid :: string
  start :: point
  endp :: point
  controlPoint :: "point option"

record intersection =
  point :: point
  vehicleCount :: nat

section \<open>Geometry kernel\<close>

text \<open>\<^verbatim>\<open>distance\<close> of utils.ts.\<close>

definition distance :: "point \<Rightarrow> point \<Rightarrow> real" where
  "distance p1 p2 = sqrt ((x p2 - x p1)\<^sup>2 + (y p2 - y p1)\<^sup>2)"

text \<open>
  The local values of \<^verbatim>\<open>getLineIntersection\<close>: the determinant \<^verbatim>\<open>cross\<close> and the
  parametric positions \<^verbatim>\<open>t\<close> (on the first segment) and \<^verbatim>\<open>u\<close> (on the second).
\<close>

definition crossOf :: "point \<Rightarrow> point \<Rightarrow> point \<Rightarrow> point \<Rightarrow> real" where
  "crossOf p1 p2 p3 p4 =
     (x p2 - x p1) * (y p4 - y p3) - (y p2 - y p1) * (x p4 - x p3)"

definition paramT :: "point \<Rightarrow> point \<Rightarrow> point \<Rightarrow> point \<Rightarrow> real" where
  "paramT p1 p2 p3 p4 =
     ((x p3 - x p1) * (y p4 - y p3) - (y p3 - y p1) * (x p4 - x p3)) / crossOf p1 p2 p3 p4"

definition paramU :: "point \<Rightarrow> point \<Rightarrow> point \<Rightarrow> point \<Rightarrow> real" where
  "paramU p1 p2 p3 p4 =
     ((x p3 - x p1) * (y p2 - y p1) - (y p3 - y p1) * (x p2 - x p1)) / crossOf p1 p2 p3 p4"

text \<open>
  \<^verbatim>\<open>Math.round\<close> rounds to the nearest integer, a tie upwards: it is
  \<open>\<lfloor>z + 1/2\<rfloor>\<close>, which is \<^const>\<open>round\<close>.
\<close>

definition mathRound :: "real \<Rightarrow> real" where
  "mathRound z = of_int (round z)"

definition getLineIntersection :: "point \<Rightarrow> point \<Rightarrow> point \<Rightarrow> point \<Rightarrow> point option" where
  "getLineIntersection p1 p2 p3 p4 =
     (let d1x = x p2 - x p1;
          d1y = y p2 - y p1;
          cross = crossOf p1 p2 p3 p4
      in if \<bar>cross\<bar> < 0.0001 then None
         else
           let t = paramT p1 p2 p3 p4;
               u = paramU p1 p2 p3 p4
           in if t \<ge> 0.01 \<and> t \<le> 0.99 \<and> u \<ge> 0.01 \<and> u \<le> 0.99
              then Some \<lparr>x = mathRound (x p1 + t * d1x), y = mathRound (y p1 + t * d1y)\<rparr>
              else None)"


section \<open>Road network builder\<close>

text \<open>
  A JavaScript \<^verbatim>\<open>Map\<close> keeps its keys in insertion order, and \<^verbatim>\<open>set\<close> on a key that is
  present replaces the value in place: an association list with distinct keys.
\<close>

definition mapGet :: "('k \<times> 'v) list \<Rightarrow> 'k \<Rightarrow> 'v option" where
  "mapGet m k = map_of m k"

definition mapSet :: "'k \<Rightarrow> 'v \<Rightarrow> ('k \<times> 'v) list \<Rightarrow> ('k \<times> 'v) list" where
  "mapSet k v m =
     (if k \<in> fst ` set m then map (\<lambda>(k', v'). if k' = k then (k', v) else (k', v')) m
      else m @ [(k, v)])"

text \<open>\<^verbatim>\<open>points.set(key, (points.get(key) || 0) + 1)\<close>.\<close>

definition countPoint :: "point \<Rightarrow> (point \<times> nat) list \<Rightarrow> (point \<times> nat) list" where
  "countPoint key points =
     mapSet key ((case mapGet points key of None \<Rightarrow> 0 | Some c \<Rightarrow> c) + 1) points"

definition countEndpoints :: "road list \<Rightarrow> (point \<times> nat) list" where
  "countEndpoints roadList =
     foldl (\<lambda>points road. countPoint (endp road) (countPoint (start road) points)) [] roadList"

text \<open>Step 1 of \<^verbatim>\<open>findIntersections\<close>: the endpoints that two or more roads share.\<close>

definition junctions :: "road list \<Rightarrow> intersection list" where
  "junctions roadList =
     map (\<lambda>(key, count). \<lparr>point = key, vehicleCount = 0\<rparr>)
       (filter (\<lambda>(key, count). count \<ge> 2) (countEndpoints roadList))"

text \<open>The test \<^verbatim>\<open>result.some(r => |r.x - i.x| < 5 && |r.y - i.y| < 5)\<close>.\<close>

definition nearRecorded :: "intersection list \<Rightarrow> point \<Rightarrow> bool" where
  "nearRecorded result p =
     list_ex (\<lambda>r. \<bar>x (point r) - x p\<bar> < 5 \<and> \<bar>y (point r) - y p\<bar> < 5) result"

text \<open>The body of the inner loop of step 2, for the pair \<open>road1\<close>, \<open>road2\<close>.\<close>

definition addCrossing :: "road \<Rightarrow> intersection list \<Rightarrow> road \<Rightarrow> intersection list" where
  "addCrossing road1 result road2 =
     (if controlPoint road1 = None \<and> controlPoint road2 = None then
        (case getLineIntersection (start road1) (endp road1) (start road2) (endp road2) of
           None \<Rightarrow> result
         | Some p \<Rightarrow>
             if \<not> nearRecorded result p then result @ [\<lparr>point = p, vehicleCount = 0\<rparr>]
             else result)
      else result)"

text \<open>
  The loops \<^verbatim>\<open>for i\<close>, \<^verbatim>\<open>for j = i + 1\<close>: every road with each road after it,
  the result list threaded through.
\<close>

fun crossingLoop :: "road list \<Rightarrow> intersection list \<Rightarrow> intersection list" where
  "crossingLoop [] result = result"
| "crossingLoop (road1 # rest) result = crossingLoop rest (foldl (addCrossing road1) result rest)"

definition findIntersections :: "road list \<Rightarrow> intersection list" where
  "findIntersections roadList = crossingLoop roadList (junctions roadList)"

section \<open>Path finder\<close>

text \<open>A JavaScript \<^verbatim>\<open>Set\<close> in insertion order.\<close>

definition setAdd :: "'a \<Rightarrow> 'a list \<Rightarrow> 'a list" where
  "setAdd k ks = (if k \<in> set ks then ks else ks @ [k])"

definition endpointNodes :: "road list \<Rightarrow> point list" where
  "endpointNodes roadList =
     foldl (\<lambda>allNodes road. setAdd (endp road) (setAdd (start road) allNodes)) [] roadList"

text \<open>\<^verbatim>\<open>realIntersections\<close>: the crossings of every pair of straight roads, in loop order.\<close>

definition crossingOf :: "road \<Rightarrow> road \<Rightarrow> point list" where
  "crossingOf road1 road2 =
     (if controlPoint road1 = None \<and> controlPoint road2 = None then
        (case getLineIntersection (start road1) (endp road1) (start road2) (endp road2) of
           None \<Rightarrow> []
         | Some p \<Rightarrow> [p])
      else [])"

fun realIntersections :: "road list \<Rightarrow> point list" where
  "realIntersections [] = []"
| "realIntersections (road1 # rest) = concat (map (crossingOf road1) rest) @ realIntersections rest"

definition allNodes :: "road list \<Rightarrow> point list" where
  "allNodes roadList =
     foldl (\<lambda>nodes p. setAdd p nodes) (endpointNodes roadList) (realIntersections roadList)"

text \<open>
  The callback that decides whether a crossing lies on a straight road: its
  projection is strictly inside the segment and at most 2 px from the line. A road of
  length zero takes no crossing.
\<close>

definition projectOnRoad :: "road \<Rightarrow> point \<Rightarrow> (point \<times> real) option" where
  "projectOnRoad road p =
     (let dx = x (endp road) - x (start road);
          dy = y (endp road) - y (start road);
          len = sqrt (dx * dx + dy * dy)
      in if len = 0 then None
         else
           let t = ((x p - x (start road)) * dx + (y p - y (start road)) * dy) / (len * len)
           in if t > 0.01 \<and> t < 0.99 then
                let projX = x (start road) + t * dx;
                    projY = y (start road) + t * dy;
                    distToLine = sqrt ((x p - projX)\<^sup>2 + (y p - projY)\<^sup>2)
                in if distToLine < 2 then Some (p, t) else None
              else None)"

text \<open>
  \<^verbatim>\<open>nodesOnRoad\<close> after the sort by \<open>t\<close>. \<^verbatim>\<open>Array.prototype.sort\<close> is stable, as
  \<^const>\<open>sort_key\<close> is.
\<close>

definition nodesOnRoad :: "point list \<Rightarrow> road \<Rightarrow> (point \<times> real) list" where
  "nodesOnRoad crossings road =
     sort_key snd
       ([(start road, 0), (endp road, 1)] @
        (if controlPoint road = None then List.map_filter (projectOnRoad road) crossings else []))"

text \<open>
  \<^verbatim>\<open>nodeConnections\<close>: a \<^verbatim>\<open>Map\<close> from a node to the array of its neighbours, each with
  the road that leads there. \<open>ensureKey\<close> is \<^verbatim>\<open>if (!m.has(k)) m.set(k, [])\<close> and
  \<open>pushTo\<close> is \<^verbatim>\<open>m.get(k)!.push(e)\<close>.
\<close>

type_synonym connections = "(point \<times> (point \<times> road) list) list"

definition ensureKey :: "point \<Rightarrow> connections \<Rightarrow> connections" where
  "ensureKey k m = (if k \<in> fst ` set m then m else m @ [(k, [])])"

definition pushTo :: "point \<Rightarrow> point \<times> road \<Rightarrow> connections \<Rightarrow> connections" where
  "pushTo k e m = map (\<lambda>(k', es). if k' = k then (k', es @ [e]) else (k', es)) m"

definition linkNodes :: "road \<Rightarrow> point \<Rightarrow> point \<Rightarrow> connections \<Rightarrow> connections" where
  "linkNodes road from to m =
     pushTo to (from, road) (pushTo from (to, road) (ensureKey to (ensureKey from m)))"

fun linkConsecutive :: "road \<Rightarrow> point list \<Rightarrow> connections \<Rightarrow> connections" where
  "linkConsecutive road (from # to # rest) m =
     linkConsecutive road (to # rest) (linkNodes road from to m)"
| "linkConsecutive road nodes m = m"

definition nodeConnections :: "road list \<Rightarrow> connections" where
  "nodeConnections roadList =
     foldl (\<lambda>m road. linkConsecutive road (map fst (nodesOnRoad (realIntersections roadList) road)) m)
       [] roadList"

text \<open>\<^verbatim>\<open>nodeConnections.get(key) || []\<close>.\<close>

definition neighborsOf :: "connections \<Rightarrow> point \<Rightarrow> (point \<times> road) list" where
  "neighborsOf m key = (case mapGet m key of None \<Rightarrow> [] | Some es \<Rightarrow> es)"

text \<open>
  The nearest-node search. The pair (\<^verbatim>\<open>closest\<close>, \<^verbatim>\<open>closestDist\<close>) starts as
  (\<^verbatim>\<open>null\<close>, \<^verbatim>\<open>Infinity\<close>), which is \<open>None\<close> here: every distance is below \<^verbatim>\<open>Infinity\<close>.
\<close>

definition closer :: "point \<Rightarrow> (point \<times> real) option \<Rightarrow> point \<Rightarrow> (point \<times> real) option" where
  "closer target closest key =
     (let dist = distance key target
      in case closest of
           None \<Rightarrow> Some (key, dist)
         | Some (c, closestDist) \<Rightarrow> if dist < closestDist then Some (key, dist) else closest)"

definition closestTo :: "point \<Rightarrow> point list \<Rightarrow> (point \<times> real) option" where
  "closestTo target nodes = foldl (closer target) None nodes"

definition MAX_BUILDING_TO_ROAD_DISTANCE :: real where
  "MAX_BUILDING_TO_ROAD_DISTANCE = 50"

text \<open>
  The breadth-first search. A queue entry is the node, the path that led to it and the
  roads of that path. \<open>visitNeighbor\<close> is the body of the loop over the neighbours.
\<close>

type_synonym qentry = "point \<times> point list \<times> road list"

definition visitNeighbor ::
  "point list \<Rightarrow> road list \<Rightarrow> qentry list \<times> point set \<Rightarrow> point \<times> road \<Rightarrow> qentry list \<times> point set" where
  "visitNeighbor path pathRoads state nr =
     (case state of (queue, visited) \<Rightarrow>
        case nr of (neighbor, road) \<Rightarrow>
          if neighbor \<notin> visited
          then (queue @ [(neighbor, path @ [neighbor], pathRoads @ [road])], insert neighbor visited)
          else (queue, visited))"

text \<open>
  One round of the loop after the end test: the loop over the neighbours of the entry
  that was taken from the queue.
\<close>

definition expand :: "connections \<Rightarrow> qentry \<Rightarrow> qentry list \<Rightarrow> point set \<Rightarrow> qentry list \<times> point set" where
  "expand conn entry queue visited =
     (case entry of (p, path, pathRoads) \<Rightarrow>
        foldl (visitNeighbor path pathRoads) (queue, visited) (neighborsOf conn p))"

text \<open>
  The points that occur as a neighbour in the map: only these are ever put in the queue
  by a round of the loop, and they are finitely many.
\<close>

definition targets :: "connections \<Rightarrow> point set" where
  "targets conn = (\<Union>ke \<in> set conn. fst ` set (snd ke))"

lemma finite_targets: "finite (targets conn)"
  by (simp add: targets_def)

lemma neighborsOf_targets: "fst ` set (neighborsOf conn p) \<subseteq> targets conn"
proof (cases "map_of conn p")
  case None
  then show ?thesis by (simp add: neighborsOf_def mapGet_def)
next
  case (Some es)
  then have "(p, es) \<in> set conn" by (rule map_of_SomeD)
  then show ?thesis using Some by (force simp: neighborsOf_def mapGet_def targets_def)
qed

lemma visit_fold:
  "foldl (visitNeighbor path rs) (queue, visited) ns = (queue', visited') \<Longrightarrow>
     visited' = visited \<union> fst ` set ns \<and>
     (\<exists>new. queue' = queue @ new \<and> fst ` set new = fst ` set ns - visited \<and> distinct (map fst new) \<and>
        (\<forall>e \<in> set new. \<exists>n r. (n, r) \<in> set ns \<and> e = (n, path @ [n], rs @ [r])))"
proof (induction ns arbitrary: queue visited)
  case Nil
  then show ?case by simp
next
  case (Cons nr ns)
  obtain n r where nr: "nr = (n, r)" by (cases nr)
  show ?case
  proof (cases "n \<in> visited")
    case True
    then have "visitNeighbor path rs (queue, visited) nr = (queue, visited)"
      using nr by (simp add: visitNeighbor_def)
    with Cons.prems have "foldl (visitNeighbor path rs) (queue, visited) ns = (queue', visited')"
      by simp
    from Cons.IH [OF this] obtain new where
      v: "visited' = visited \<union> fst ` set ns" and
      q: "queue' = queue @ new" and
      f: "fst ` set new = fst ` set ns - visited" and
      d: "distinct (map fst new)" and
      a: "\<forall>e \<in> set new. \<exists>n r. (n, r) \<in> set ns \<and> e = (n, path @ [n], rs @ [r])"
      by blast
    have "fst ` set new = fst ` set (nr # ns) - visited" using f True nr by auto
    moreover have "\<forall>e \<in> set new. \<exists>n r. (n, r) \<in> set (nr # ns) \<and> e = (n, path @ [n], rs @ [r])"
      using a by fastforce
    moreover have "visited' = visited \<union> fst ` set (nr # ns)" using v True nr by auto
    ultimately show ?thesis using q d by blast
  next
    case False
    let ?e = "(n, path @ [n], rs @ [r])"
    from False have "visitNeighbor path rs (queue, visited) nr = (queue @ [?e], insert n visited)"
      using nr by (simp add: visitNeighbor_def)
    with Cons.prems
    have "foldl (visitNeighbor path rs) (queue @ [?e], insert n visited) ns = (queue', visited')"
      by simp
    from Cons.IH [OF this] obtain new where
      v: "visited' = insert n visited \<union> fst ` set ns" and
      q: "queue' = (queue @ [?e]) @ new" and
      f: "fst ` set new = fst ` set ns - insert n visited" and
      d: "distinct (map fst new)" and
      a: "\<forall>e \<in> set new. \<exists>n r. (n, r) \<in> set ns \<and> e = (n, path @ [n], rs @ [r])"
      by blast
    have "queue' = queue @ (?e # new)" using q by simp
    moreover have "fst ` set (?e # new) = fst ` set (nr # ns) - visited"
      using f False nr by auto
    moreover have "distinct (map fst (?e # new))" using d f by auto
    moreover have "\<forall>e \<in> set (?e # new). \<exists>n r. (n, r) \<in> set (nr # ns) \<and> e = (n, path @ [n], rs @ [r])"
      using a nr by auto
    moreover have "visited' = visited \<union> fst ` set (nr # ns)" using v nr by auto
    ultimately show ?thesis by blast
  qed
qed

lemma expand_measure:
  assumes "expand conn (p, path, rs) queue visited = (queue', visited')"
  shows "card (targets conn - visited') < card (targets conn - visited)
       \<or> (card (targets conn - visited') = card (targets conn - visited) \<and> queue' = queue)"
proof -
  let ?ns = "neighborsOf conn p"
  from assms have "foldl (visitNeighbor path rs) (queue, visited) ?ns = (queue', visited')"
    by (simp add: expand_def)
  from visit_fold [OF this] obtain new where
    v: "visited' = visited \<union> fst ` set ?ns" and q: "queue' = queue @ new" and
    f: "fst ` set new = fst ` set ?ns - visited"
    by blast
  show ?thesis
  proof (cases "fst ` set ?ns \<subseteq> visited")
    case True
    then have "fst ` set new = {}" using f by auto
    then have "new = []" by simp
    moreover have "visited' = visited" using True v by auto
    ultimately show ?thesis using q by simp
  next
    case False
    then obtain n where n: "n \<in> fst ` set ?ns" "n \<notin> visited" by auto
    then have "n \<in> targets conn - visited" "n \<notin> targets conn - visited'"
      using neighborsOf_targets [of conn p] v by auto
    moreover have "targets conn - visited' \<subseteq> targets conn - visited" using v by auto
    ultimately have "targets conn - visited' \<subset> targets conn - visited" by auto
    then show ?thesis using finite_targets [of conn] by (simp add: psubset_card_mono)
  qed
qed

text \<open>
  The \<^verbatim>\<open>while (queue.length > 0)\<close> loop. It ends because every round either marks a
  new node of the finite graph visited or shortens the queue.
\<close>

function bfs :: "connections \<Rightarrow> point \<Rightarrow> qentry list \<Rightarrow> point set \<Rightarrow> point list option" where
  "bfs conn endNode [] visited = None"
| "bfs conn endNode (entry # queue) visited =
     (case entry of (p, path, pathRoads) \<Rightarrow>
        if x p = x endNode \<and> y p = y endNode then Some path
        else (case expand conn entry queue visited of
                (queue', visited') \<Rightarrow> bfs conn endNode queue' visited'))"
  by pat_completeness auto
termination
proof (relation "inv_image (less_than <*lex*> less_than)
    (\<lambda>(conn, endNode, queue, visited). (card (targets conn - visited), length queue))", goal_cases)
  case 1
  show ?case by (intro wf_inv_image wf_lex_prod wf_less_than)
next
  case (2 conn endNode entry queue visited p rest path pathRoads queue' visited')
  from "2"(1,2,4) have e: "expand conn (p, path, pathRoads) queue visited = (queue', visited')"
    by simp
  from expand_measure [OF e] show ?case
    using "2"(1,2) "2"(4) [symmetric] by auto
qed


definition findPath :: "point \<Rightarrow> point \<Rightarrow> road list \<Rightarrow> point list option" where
  "findPath startP endP roadList =
     (if roadList = [] then None
      else
        let nodes = allNodes roadList;
            conn = nodeConnections roadList
        in case (closestTo startP nodes, closestTo endP nodes) of
             (Some (closestStart, closestStartDist), Some (closestEnd, closestEndDist)) \<Rightarrow>
               if closestStartDist > MAX_BUILDING_TO_ROAD_DISTANCE then None
               else if closestEndDist > MAX_BUILDING_TO_ROAD_DISTANCE then None
               else bfs conn closestEnd [(closestStart, [closestStart], [])] {closestStart}
           | _ \<Rightarrow> None)"


section \<open>Vehicle scheduler\<close>

datatype lane = LaneLeft | LaneRight

datatype status = GoingToOffice | AtOffice | GoingHome | AtHome

text \<open>A building; the fields \<^verbatim>\<open>id\<close>, \<^verbatim>\<open>position\<close>, \<^verbatim>\<open>color\<close> carry the prefix \<open>b\<close>.\<close>

record building =
  bid :: string
  bposition :: point
  bcolor :: string

text \<open>
  A vehicle; the field \<^verbatim>\<open>id\<close> is \<open>vid\<close>. \<^verbatim>\<open>intersectionArrivalTimes\<close> is an object
  used as a dictionary from intersection keys to timestamps.
\<close>

record vehicle =
  vid :: string
  position :: point
  targetIndex :: nat
  path :: "point list"
  speed :: real
  waitTime :: real
  color :: string
  lane :: lane
  direction :: real
  fromBuilding :: string
  toBuilding :: string
  status :: status
  officeArrivalTime :: real
  intersectionArrivalTimes :: "point \<rightharpoonup> real"

text \<open>
  The constants of \<^verbatim>\<open>constants.ts\<close> that the scheduler reads. Their values are
  parameters of the model: every statement holds for all of them.
\<close>

record constants =
  OFFICE_WAIT_TIME :: real
  SCORE_PER_TRIP :: real
  LANE_OFFSET :: real

text \<open>The component state that the game loop closes over.\<close>

record world =
  intersections :: "intersection list"
  buildings :: "building list"
  roads :: "road list"

text \<open>\<^verbatim>\<open>getLaneOffset\<close> (the same function in RoadGame.tsx and utils.ts).\<close>

definition getLaneOffset :: "real \<Rightarrow> point \<Rightarrow> point \<Rightarrow> lane \<Rightarrow> point" where
  "getLaneOffset laneOffset from to side =
     (let dx = x to - x from;
          dy = y to - y from;
          len = sqrt (dx * dx + dy * dy)
      in if len = 0 then \<lparr>x = 0, y = 0\<rparr>
         else
           let perpX = - dy / len;
               perpY = dx / len;
               offset = (if side = LaneRight then laneOffset else - laneOffset)
           in \<lparr>x = perpX * offset, y = perpY * offset\<rparr>)"

text \<open>\<^verbatim>\<open>Math.atan2(b, a)\<close>: the angle of the vector \<open>(a, b)\<close>, in \<open>(-\<pi>, \<pi>]\<close>.\<close>

definition atan2 :: "real \<Rightarrow> real \<Rightarrow> real" where
  "atan2 b a =
     (if a > 0 then arctan (b / a)
      else if a < 0 \<and> b \<ge> 0 then arctan (b / a) + pi
      else if a < 0 then arctan (b / a) - pi
      else if b > 0 then pi / 2
      else if b < 0 then - pi / 2
      else 0)"

definition createReturnPath :: "world \<Rightarrow> vehicle \<Rightarrow> point list option" where
  "createReturnPath w vehicle =
     (case (find (\<lambda>b. bid b = toBuilding vehicle) (buildings w),
            find (\<lambda>b. bid b = fromBuilding vehicle) (buildings w)) of
        (Some officeBuilding, Some homeBuilding) \<Rightarrow>
          findPath (bposition officeBuilding) (bposition homeBuilding) (roads w)
      | _ \<Rightarrow> None)"

definition enRoute :: "vehicle \<Rightarrow> bool" where
  "enRoute vehicle = (status vehicle = GoingToOffice \<or> status vehicle = GoingHome)"

text \<open>
  Stage 1, for one vehicle and one intersection. \<^verbatim>\<open>!newArrivalTimes[key]\<close> holds for a
  missing entry and for the timestamp 0.
\<close>

definition recordArrival ::
  "real \<Rightarrow> vehicle \<Rightarrow> (point \<rightharpoonup> real) \<Rightarrow> intersection \<Rightarrow> (point \<rightharpoonup> real)" where
  "recordArrival currentTime vehicle newArrivalTimes i =
     (let key = point i;
          dist = distance (position vehicle) (point i)
      in if dist < 30 then
           (case newArrivalTimes key of
              None \<Rightarrow> newArrivalTimes(key \<mapsto> currentTime)
            | Some t \<Rightarrow> if t = 0 then newArrivalTimes(key \<mapsto> currentTime) else newArrivalTimes)
         else newArrivalTimes(key := None))"

definition updateArrivalTimes :: "intersection list \<Rightarrow> real \<Rightarrow> vehicle \<Rightarrow> vehicle" where
  "updateArrivalTimes ints currentTime vehicle =
     (if \<not> enRoute vehicle then vehicle
      else vehicle\<lparr>intersectionArrivalTimes :=
             foldl (recordArrival currentTime vehicle) (intersectionArrivalTimes vehicle) ints\<rparr>)"

text \<open>
  Stage 2: the queue of one intersection key, sorted by arrival time. Every en-route
  vehicle with an entry for the key contributes that entry, in the order of the
  vehicle list; a vehicle has at most one entry for a key, so the order in which
  \<^verbatim>\<open>Object.entries\<close> lists the keys of one vehicle does not matter for a single queue.
  A key that no vehicle has recorded has no queue in the source and the empty one here.
\<close>

definition queueEntries :: "vehicle list \<Rightarrow> point \<Rightarrow> (string \<times> real) list" where
  "queueEntries vs key =
     concat (map (\<lambda>vehicle.
        if \<not> enRoute vehicle then []
        else (case intersectionArrivalTimes vehicle key of
                None \<Rightarrow> []
              | Some arrivalTime \<Rightarrow> [(vid vehicle, arrivalTime)])) vs)"

definition intersectionQueue :: "vehicle list \<Rightarrow> point \<Rightarrow> (string \<times> real) list" where
  "intersectionQueue vs key = sort_key snd (queueEntries vs key)"

definition insideIntersection :: "intersection list \<Rightarrow> vehicle \<Rightarrow> bool" where
  "insideIntersection ints vehicle =
     list_ex (\<lambda>i. distance (position vehicle) (point i) < 15) ints"

definition sameDirectionInIntersection :: "vehicle list \<Rightarrow> vehicle \<Rightarrow> intersection \<Rightarrow> bool" where
  "sameDirectionInIntersection vs vehicle i =
     list_ex (\<lambda>other. vid other \<noteq> vid vehicle \<and> status other = status vehicle \<and>
                distance (position other) (point i) < 15) vs"

definition sameDirectionQueue ::
  "vehicle list \<Rightarrow> vehicle \<Rightarrow> (string \<times> real) list \<Rightarrow> (string \<times> real) list" where
  "sameDirectionQueue vs vehicle queue =
     filter (\<lambda>q. case find (\<lambda>v. vid v = fst q) vs of
                    None \<Rightarrow> False
                  | Some otherVehicle \<Rightarrow> status otherVehicle = status vehicle) queue"

text \<open>
  The body of the loop over the intersections in the wait decision; the flag
  \<^verbatim>\<open>shouldWait\<close> is threaded through and only ever set.
\<close>

definition stopLine :: "vehicle list \<Rightarrow> vehicle \<Rightarrow> bool \<Rightarrow> intersection \<Rightarrow> bool" where
  "stopLine vs vehicle shouldWait i =
     (let distToIntersection = distance (position vehicle) (point i)
      in if distToIntersection \<ge> 15 \<and> distToIntersection < 35 then
           let queue = intersectionQueue vs (point i)
           in if sameDirectionInIntersection vs vehicle i then True
              else if length queue \<ge> 2 then
                let sdq = sameDirectionQueue vs vehicle queue
                in if length sdq \<ge> 2 \<and> fst (sdq ! 0) \<noteq> vid vehicle then True else shouldWait
              else shouldWait
         else shouldWait)"

definition shouldWait :: "intersection list \<Rightarrow> vehicle list \<Rightarrow> vehicle \<Rightarrow> bool" where
  "shouldWait ints vs vehicle =
     (if \<not> insideIntersection ints vehicle then foldl (stopLine vs vehicle) False ints
      else False)"

definition waitVehicle :: "vehicle \<Rightarrow> vehicle" where
  "waitVehicle vehicle = vehicle\<lparr>waitTime := waitTime vehicle + 0.016\<rparr>"

text \<open>
  The movement of a vehicle that does not wait, towards \<^verbatim>\<open>path[targetIndex]\<close> shifted
  by the lane offset. It is only reached with \<open>targetIndex < length path\<close>, so both
  reads of the path are in range.
\<close>

definition moveVehicle :: "constants \<Rightarrow> vehicle \<Rightarrow> vehicle" where
  "moveVehicle K vehicle =
     (let target = path vehicle ! targetIndex vehicle;
          prevPoint = path vehicle ! nat (max 0 (int (targetIndex vehicle) - 1));
          laneOffset = getLaneOffset (LANE_OFFSET K) prevPoint target (lane vehicle);
          adjustedTarget = \<lparr>x = x target + x laneOffset, y = y target + y laneOffset\<rparr>;
          dx = x adjustedTarget - x (position vehicle);
          dy = y adjustedTarget - y (position vehicle);
          dist = sqrt (dx * dx + dy * dy)
      in if dist < speed vehicle then
           vehicle\<lparr>position := adjustedTarget,
                   targetIndex := targetIndex vehicle + 1,
                   direction := atan2 dy dx,
                   waitTime := max 0 (waitTime vehicle - 0.016)\<rparr>
         else
           vehicle\<lparr>position := \<lparr>x = x (position vehicle) + (dx / dist) * speed vehicle,
                                 y = y (position vehicle) + (dy / dist) * speed vehicle\<rparr>,
                   direction := atan2 dy dx,
                   waitTime := max 0 (waitTime vehicle - 0.016)\<rparr>)"

text \<open>
  Stage 3: the transition of one vehicle, given the snapshot \<open>vs\<close> of all vehicles after
  stage 1. The result is the updated vehicle (\<open>None\<close> for \<^verbatim>\<open>null\<close>: the vehicle is removed)
  and what the callback adds to \<^verbatim>\<open>scoreIncrease\<close>.
\<close>

definition stepVehicle ::
  "constants \<Rightarrow> world \<Rightarrow> real \<Rightarrow> vehicle list \<Rightarrow> vehicle \<Rightarrow> vehicle option \<times> real" where
  "stepVehicle K w currentTime vs vehicle =
     (if status vehicle = AtOffice then
        (if currentTime - officeArrivalTime vehicle \<ge> OFFICE_WAIT_TIME K then
           (case createReturnPath w vehicle of
              None \<Rightarrow> (Some vehicle, 0)
            | Some returnPath \<Rightarrow>
                if length returnPath \<ge> 2 then
                  (Some (vehicle\<lparr>status := GoingHome,
                                 path := returnPath,
                                 targetIndex := 1,
                                 position := returnPath ! 0,
                                 intersectionArrivalTimes := Map.empty\<rparr>), 0)
                else (Some vehicle, 0))
         else (Some vehicle, 0))
      else if status vehicle = AtHome then (None, 0)
      else if targetIndex vehicle \<ge> length (path vehicle) then
        (if status vehicle = GoingToOffice then
           (Some (vehicle\<lparr>status := AtOffice, officeArrivalTime := currentTime\<rparr>), 0)
         else if status vehicle = GoingHome then (None, SCORE_PER_TRIP K)
         else (Some vehicle, 0))
      else if shouldWait (intersections w) vs vehicle then (Some (waitVehicle vehicle), 0)
      else (Some (moveVehicle K vehicle), 0))"

text \<open>
  One tick of the game loop at time \<open>currentTime\<close>: the new vehicle list and the
  \<^verbatim>\<open>scoreIncrease\<close> of the tick. \<open>commitScore\<close> is the update of the score that follows.
\<close>

definition vehiclesWithArrivalTimes :: "world \<Rightarrow> real \<Rightarrow> vehicle list \<Rightarrow> vehicle list" where
  "vehiclesWithArrivalTimes w currentTime prevVehicles =
     map (updateArrivalTimes (intersections w) currentTime) prevVehicles"

definition gameTick :: "constants \<Rightarrow> world \<Rightarrow> real \<Rightarrow> vehicle list \<Rightarrow> vehicle list \<times> real" where
  "gameTick K w currentTime prevVehicles =
     (let vs = vehiclesWithArrivalTimes w currentTime prevVehicles;
          results = map (stepVehicle K w currentTime vs) vs
      in (List.map_filter fst results, sum_list (map snd results)))"


section \<open>Undefined arithmetic made explicit\<close>





section \<open>Specification predicates\<close>

text \<open>
  What a tick does with one vehicle of the list it is given: stage 1 for that vehicle,
  then its transition against the snapshot of all vehicles after stage 1.
\<close>

definition stepInTick ::
  "constants \<Rightarrow> world \<Rightarrow> real \<Rightarrow> vehicle list \<Rightarrow> vehicle \<Rightarrow> vehicle option \<times> real" where
  "stepInTick K w currentTime prevVehicles vehicle =
     stepVehicle K w currentTime (vehiclesWithArrivalTimes w currentTime prevVehicles)
       (updateArrivalTimes (intersections w) currentTime vehicle)"

text \<open>
  The right-of-way rule in the words of the specification. A vehicle is in the approach
  band of an intersection at a distance in [15, 35). Condition (a): another vehicle with
  the same status is within 15 px of the intersection. Condition (b): the entries of
  the intersection's queue that belong to vehicles of the same status, earliest arrival
  first, are at least two and the first of them is not this vehicle's.
\<close>

definition inApproachBand :: "vehicle \<Rightarrow> intersection \<Rightarrow> bool" where
  "inApproachBand vehicle i =
     (15 \<le> distance (position vehicle) (point i) \<and> distance (position vehicle) (point i) < 35)"

definition withinInnerRadius :: "intersection list \<Rightarrow> vehicle \<Rightarrow> bool" where
  "withinInnerRadius ints vehicle = (\<exists>i \<in> set ints. distance (position vehicle) (point i) < 15)"

definition blockedInside :: "vehicle list \<Rightarrow> vehicle \<Rightarrow> intersection \<Rightarrow> bool" where
  "blockedInside vs vehicle i =
     (\<exists>other \<in> set vs. vid other \<noteq> vid vehicle \<and> status other = status vehicle \<and>
        distance (position other) (point i) < 15)"

definition sameStatusEntries :: "vehicle list \<Rightarrow> vehicle \<Rightarrow> point \<Rightarrow> (string \<times> real) list" where
  "sameStatusEntries vs vehicle key =
     sort_key snd
       (concat (map (\<lambda>v. case intersectionArrivalTimes v key of
                             None \<Rightarrow> []
                           | Some arrivalTime \<Rightarrow> [(vid v, arrivalTime)])
          (filter (\<lambda>v. enRoute v \<and> status v = status vehicle) vs)))"

definition notFirstInQueue :: "vehicle list \<Rightarrow> vehicle \<Rightarrow> intersection \<Rightarrow> bool" where
  "notFirstInQueue vs vehicle i =
     (length (sameStatusEntries vs vehicle (point i)) \<ge> 2 \<and>
      fst (hd (sameStatusEntries vs vehicle (point i))) \<noteq> vid vehicle)"

text \<open>
  A point is a crossing of the road set when it is the line intersection of two of its
  straight roads. \<open>addedInOrder\<close> says of a list of intersections appended to
  \<open>result\<close> one after the other that each is such a crossing and was, when it was added,
  not near (below 5 px in both coordinates) any intersection recorded before it.
\<close>

definition isCrossing :: "road list \<Rightarrow> point \<Rightarrow> bool" where
  "isCrossing roadList p =
     (\<exists>road1 \<in> set roadList. \<exists>road2 \<in> set roadList.
        controlPoint road1 = None \<and> controlPoint road2 = None \<and>
        getLineIntersection (start road1) (endp road1) (start road2) (endp road2) = Some p)"

fun addedInOrder :: "road list \<Rightarrow> intersection list \<Rightarrow> intersection list \<Rightarrow> bool" where
  "addedInOrder roadList result [] = True"
| "addedInOrder roadList result (c # cs) =
     (\<not> nearRecorded result (point c) \<and> isCrossing roadList (point c) \<and>
      addedInOrder roadList (result @ [c]) cs)"

text \<open>
  A junction at (0,0), shared by the first two roads, and a third road that crosses the
  first one at (5,0).
\<close>

definition roadsNearJunction :: "road list" where
  "roadsNearJunction =
     [\<lparr>rid = ''a'', start = \<lparr>x = 0, y = 0\<rparr>, endp = \<lparr>x = 100, y = 0\<rparr>, controlPoint = None\<rparr>,
      \<lparr>rid = ''b'', start = \<lparr>x = 0, y = 0\<rparr>, endp = \<lparr>x = 0, y = 100\<rparr>, controlPoint = None\<rparr>,
      \<lparr>rid = ''c'', start = \<lparr>x = 5, y = -50\<rparr>, endp = \<lparr>x = 5, y = 50\<rparr>, controlPoint = None\<rparr>]"

text \<open>
  The routable graph that \<^verbatim>\<open>findPath\<close> searches: the neighbours of a node are the
  points of its \<^verbatim>\<open>nodeConnections\<close> entry. A path is a non-empty list of nodes in which
  each node is followed by one of its neighbours; its edge count is its length less
  one. \<open>reach conn s n v\<close> says that \<open>n\<close> edges lead from \<open>s\<close> to \<open>v\<close>.
\<close>

definition adjacent :: "connections \<Rightarrow> point \<Rightarrow> point list" where
  "adjacent conn p = map fst (neighborsOf conn p)"

fun isPath :: "connections \<Rightarrow> point list \<Rightarrow> bool" where
  "isPath conn [] = False"
| "isPath conn [p] = True"
| "isPath conn (p # q # rest) = (q \<in> set (adjacent conn p) \<and> isPath conn (q # rest))"

definition edgeCount :: "point list \<Rightarrow> nat" where
  "edgeCount q = length q - 1"

inductive reach :: "connections \<Rightarrow> point \<Rightarrow> nat \<Rightarrow> point \<Rightarrow> bool" for conn s where
  reach_start: "reach conn s 0 s"
| reach_step: "reach conn s n u \<Longrightarrow> v \<in> set (adjacent conn u) \<Longrightarrow> reach conn s (Suc n) v"

text \<open>The node that a point is snapped to: \<^verbatim>\<open>closestStart\<close> and \<^verbatim>\<open>closestEnd\<close>.\<close>

definition snapNode :: "point \<Rightarrow> point list \<Rightarrow> point option" where
  "snapNode target nodes = map_option fst (closestTo target nodes)"

text \<open>
  The invariant of the search loop. Every queue entry holds a path from the start node
  to its node that no path undercuts; the path lengths in the queue are sorted and
  span at most two values; every node within the head's distance is visited; and
  every visited node is still queued or has all its neighbours visited.
\<close>

definition bfsInv :: "connections \<Rightarrow> point \<Rightarrow> qentry list \<Rightarrow> point set \<Rightarrow> bool" where
  "bfsInv conn s queue visited \<longleftrightarrow>
     (\<forall>e \<in> set queue. isPath conn (fst (snd e)) \<and> hd (fst (snd e)) = s \<and> last (fst (snd e)) = fst e \<and>
        fst e \<in> visited \<and> (\<forall>n. reach conn s n (fst e) \<longrightarrow> length (fst (snd e)) \<le> Suc n)) \<and>
     sorted (map (\<lambda>e. length (fst (snd e))) queue) \<and>
     (\<forall>e \<in> set queue. length (fst (snd e)) \<le> Suc (length (fst (snd (hd queue))))) \<and>
     (queue \<noteq> [] \<longrightarrow> (\<forall>n v. reach conn s n v \<and> Suc n \<le> length (fst (snd (hd queue))) \<longrightarrow> v \<in> visited)) \<and>
     (\<forall>v \<in> visited. v \<in> fst ` set queue \<or> set (adjacent conn v) \<subseteq> visited)"

text \<open>
  The first node, in insertion order, that is at least as close to the target as every
  node.
\<close>

definition firstNearest :: "point \<Rightarrow> point list \<Rightarrow> point option" where
  "firstNearest target nodes =
     find (\<lambda>n. \<forall>m \<in> set nodes. distance n target \<le> distance m target) nodes"

text \<open>Road sets for the examples: a triangle, two roads that cross, a single road.\<close>

definition triangleRoads :: "road list" where
  "triangleRoads =
     [\<lparr>rid = ''a'', start = \<lparr>x = 0, y = 0\<rparr>, endp = \<lparr>x = 100, y = 0\<rparr>, controlPoint = None\<rparr>,
      \<lparr>rid = ''b'', start = \<lparr>x = 100, y = 0\<rparr>, endp = \<lparr>x = 100, y = 100\<rparr>, controlPoint = None\<rparr>,
      \<lparr>rid = ''c'', start = \<lparr>x = 0, y = 0\<rparr>, endp = \<lparr>x = 100, y = 100\<rparr>, controlPoint = None\<rparr>]"

definition crossRoads :: "road list" where
  "crossRoads =
     [\<lparr>rid = ''a'', start = \<lparr>x = 0, y = 50\<rparr>, endp = \<lparr>x = 200, y = 50\<rparr>, controlPoint = None\<rparr>,
      \<lparr>rid = ''b'', start = \<lparr>x = 100, y = 0\<rparr>, endp = \<lparr>x = 100, y = 100\<rparr>, controlPoint = None\<rparr>]"

definition oneRoad :: "road list" where
  "oneRoad =
     [\<lparr>rid = ''a'', start = \<lparr>x = 0, y = 0\<rparr>, endp = \<lparr>x = 100, y = 0\<rparr>, controlPoint = None\<rparr>]"

text \<open>
  Worlds and vehicles for the examples. The values of the constants are examples too.
  \<open>corridorWorld\<close> has junctions at (0,0) and (40,0); \<open>officeWorld\<close> is a single road
  with a home at one end and an office at the other.
\<close>

definition exampleConstants :: constants where
  "exampleConstants = \<lparr>OFFICE_WAIT_TIME = 3000, SCORE_PER_TRIP = 10, LANE_OFFSET = 4\<rparr>"

definition corridorRoads :: "road list" where
  "corridorRoads =
     [\<lparr>rid = ''a'', start = \<lparr>x = -100, y = 0\<rparr>, endp = \<lparr>x = 0, y = 0\<rparr>, controlPoint = None\<rparr>,
      \<lparr>rid = ''b'', start = \<lparr>x = 0, y = 0\<rparr>, endp = \<lparr>x = 40, y = 0\<rparr>, controlPoint = None\<rparr>,
      \<lparr>rid = ''c'', start = \<lparr>x = 40, y = 0\<rparr>, endp = \<lparr>x = 140, y = 0\<rparr>, controlPoint = None\<rparr>]"

definition corridorWorld :: world where
  "corridorWorld =
     \<lparr>intersections = [\<lparr>point = \<lparr>x = 0, y = 0\<rparr>, vehicleCount = 0\<rparr>,
                       \<lparr>point = \<lparr>x = 40, y = 0\<rparr>, vehicleCount = 0\<rparr>],
      buildings = [],
      roads = corridorRoads\<rparr>"

definition approachingCar :: vehicle where
  "approachingCar =
     \<lparr>vid = ''car-1'', position = \<lparr>x = 20, y = 0\<rparr>, targetIndex = 1,
      path = [\<lparr>x = 0, y = 0\<rparr>, \<lparr>x = 40, y = 0\<rparr>, \<lparr>x = 140, y = 0\<rparr>],
      speed = 2, waitTime = 0, color = ''red'', lane = LaneRight, direction = 0,
      fromBuilding = ''red-home'', toBuilding = ''red-office'', status = GoingToOffice,
      officeArrivalTime = 0, intersectionArrivalTimes = Map.empty\<rparr>"

definition insideCar :: vehicle where
  "insideCar =
     \<lparr>vid = ''car-2'', position = \<lparr>x = 40, y = 0\<rparr>, targetIndex = 2,
      path = [\<lparr>x = 0, y = 0\<rparr>, \<lparr>x = 40, y = 0\<rparr>, \<lparr>x = 140, y = 0\<rparr>],
      speed = 2, waitTime = 0, color = ''red'', lane = LaneRight, direction = 0,
      fromBuilding = ''red-home'', toBuilding = ''red-office'', status = GoingToOffice,
      officeArrivalTime = 0, intersectionArrivalTimes = Map.empty\<rparr>"



definition officeWorld :: world where
  "officeWorld =
     \<lparr>intersections = [],
      buildings = [\<lparr>bid = ''red-home'', bposition = \<lparr>x = 0, y = 0\<rparr>, bcolor = ''red''\<rparr>,
                   \<lparr>bid = ''red-office'', bposition = \<lparr>x = 100, y = 0\<rparr>, bcolor = ''red''\<rparr>],
      roads = oneRoad\<rparr>"

definition officeCar :: vehicle where
  "officeCar =
     \<lparr>vid = ''car-5'', position = \<lparr>x = 100, y = 4\<rparr>, targetIndex = 2,
      path = [\<lparr>x = 0, y = 0\<rparr>, \<lparr>x = 100, y = 0\<rparr>],
      speed = 2, waitTime = 0, color = ''red'', lane = LaneRight, direction = 0,
      fromBuilding = ''red-home'', toBuilding = ''red-office'', status = AtOffice,
      officeArrivalTime = 1000,
      intersectionArrivalTimes = [\<lparr>x = 100, y = 0\<rparr> \<mapsto> 900]\<rparr>"

section \<open>Line intersection\<close>


lemma mathRound_nearest: "\<bar>mathRound z - z\<bar> \<le> 1 / 2"
  unfolding mathRound_def using of_int_round_abs_le [of z] by simp


lemma param_point_y:
  assumes "crossOf p1 p2 p3 p4 \<noteq> 0"
  shows "y p1 + paramT p1 p2 p3 p4 * (y p2 - y p1) = y p3 + paramU p1 p2 p3 p4 * (y p4 - y p3)"
proof -
  let ?c = "crossOf p1 p2 p3 p4"
  have "(y p1 + paramT p1 p2 p3 p4 * (y p2 - y p1)) * ?c
      = (y p3 + paramU p1 p2 p3 p4 * (y p4 - y p3)) * ?c"
    using assms by (simp add: paramT_def paramU_def crossOf_def field_simps)
  then show ?thesis using assms by simp
qed



section \<open>Crossings are kept apart\<close>

lemma sqrt_less_numeral: "0 < c \<Longrightarrow> (sqrt a < c) = (a < c * c)"
  by (metis abs_of_pos real_sqrt_abs2 real_sqrt_less_iff)

lemma sqrt_greater_numeral: "0 \<le> c \<Longrightarrow> (c < sqrt a) = (c * c < a)"
  by (metis abs_of_nonneg real_sqrt_abs2 real_sqrt_less_iff)

lemma sqrt_le_numeral: "0 \<le> c \<Longrightarrow> (sqrt a \<le> c) = (a \<le> c * c)"
  by (metis abs_of_nonneg real_sqrt_abs2 real_sqrt_le_iff)

lemma sqrt_ge_numeral: "0 \<le> c \<Longrightarrow> (c \<le> sqrt a) = (c * c \<le> a)"
  by (metis abs_of_nonneg real_sqrt_abs2 real_sqrt_le_iff)

lemmas geometry_eval =
  getLineIntersection_def crossOf_def paramT_def paramU_def mathRound_def Let_def distance_def
  sqrt_less_numeral sqrt_greater_numeral sqrt_le_numeral sqrt_ge_numeral

lemmas builder_eval =
  findIntersections_def junctions_def countEndpoints_def countPoint_def mapSet_def mapGet_def
  addCrossing_def nearRecorded_def

lemma addedInOrder_append:
  "addedInOrder roadList result cs \<Longrightarrow> addedInOrder roadList (result @ cs) ds \<Longrightarrow>
     addedInOrder roadList result (cs @ ds)"
  by (induction cs arbitrary: result) auto

lemma addCrossing_added:
  assumes "road1 \<in> set roadList" "road2 \<in> set roadList"
  shows "\<exists>cs. addCrossing road1 result road2 = result @ cs \<and> addedInOrder roadList result cs"
proof (cases "controlPoint road1 = None \<and> controlPoint road2 = None")
  case False
  then have "addCrossing road1 result road2 = result @ []" by (auto simp: addCrossing_def)
  then show ?thesis by (metis addedInOrder.simps(1))
next
  case True
  show ?thesis
  proof (cases "getLineIntersection (start road1) (endp road1) (start road2) (endp road2)")
    case None
    with True have "addCrossing road1 result road2 = result @ []" by (simp add: addCrossing_def)
    then show ?thesis by (metis addedInOrder.simps(1))
  next
    case (Some p)
    show ?thesis
    proof (cases "nearRecorded result p")
      case True
      with Some \<open>controlPoint road1 = None \<and> controlPoint road2 = None\<close>
      have "addCrossing road1 result road2 = result @ []" by (simp add: addCrossing_def)
      then show ?thesis by (metis addedInOrder.simps(1))
    next
      case False
      let ?c = "\<lparr>point = p, vehicleCount = 0\<rparr>"
      from False Some True have "addCrossing road1 result road2 = result @ [?c]"
        by (simp add: addCrossing_def)
      moreover have "isCrossing roadList p"
        unfolding isCrossing_def using assms True Some by blast
      then have "addedInOrder roadList result [?c]" using False by simp
      ultimately show ?thesis by blast
    qed
  qed
qed

lemma foldl_addCrossing_added:
  assumes "road1 \<in> set roadList"
  shows "set rest \<subseteq> set roadList \<Longrightarrow>
    \<exists>cs. foldl (addCrossing road1) result rest = result @ cs \<and> addedInOrder roadList result cs"
proof (induction rest arbitrary: result)
  case Nil
  then show ?case by simp
next
  case (Cons road2 rest)
  then have "road2 \<in> set roadList" by simp
  from addCrossing_added [OF assms this] obtain cs where
    cs: "addCrossing road1 result road2 = result @ cs" "addedInOrder roadList result cs"
    by blast
  from Cons obtain ds where
    ds: "foldl (addCrossing road1) (result @ cs) rest = (result @ cs) @ ds"
      "addedInOrder roadList (result @ cs) ds"
    by (metis set_subset_Cons subset_trans)
  have "foldl (addCrossing road1) result (road2 # rest) = result @ (cs @ ds)"
    using cs ds by simp
  with addedInOrder_append [OF cs(2) ds(2)] show ?case by blast
qed

lemma crossingLoop_added:
  "set rs \<subseteq> set roadList \<Longrightarrow>
    \<exists>cs. crossingLoop rs result = result @ cs \<and> addedInOrder roadList result cs"
proof (induction rs arbitrary: result)
  case Nil
  then show ?case by simp
next
  case (Cons road1 rest)
  then have r: "road1 \<in> set roadList" "set rest \<subseteq> set roadList" by auto
  from foldl_addCrossing_added [OF r] obtain cs where
    cs: "foldl (addCrossing road1) result rest = result @ cs" "addedInOrder roadList result cs"
    by blast
  from Cons.IH [OF r(2)] obtain ds where
    ds: "crossingLoop rest (result @ cs) = (result @ cs) @ ds"
      "addedInOrder roadList (result @ cs) ds"
    by blast
  have "crossingLoop (road1 # rest) result = result @ (cs @ ds)" using cs ds by simp
  with addedInOrder_append [OF cs(2) ds(2)] show ?case by blast
qed

lemma addedInOrder_nth:
  "addedInOrder roadList result cs \<Longrightarrow> k < length cs \<Longrightarrow>
     isCrossing roadList (point (cs ! k)) \<and>
     (\<forall>j < length result + k. \<not> (\<bar>x (point ((result @ cs) ! j)) - x (point (cs ! k))\<bar> < 5 \<and>
                                 \<bar>y (point ((result @ cs) ! j)) - y (point (cs ! k))\<bar> < 5))"
proof (induction cs arbitrary: result k)
  case Nil
  then show ?case by simp
next
  case (Cons c cs)
  show ?case
  proof (cases k)
    case 0
    have "\<forall>r \<in> set result. \<not> (\<bar>x (point r) - x (point c)\<bar> < 5 \<and> \<bar>y (point r) - y (point c)\<bar> < 5)"
      using Cons.prems(1) by (simp add: nearRecorded_def list_ex_iff)
    then have "\<forall>j < length result. \<not> (\<bar>x (point (result ! j)) - x (point c)\<bar> < 5
        \<and> \<bar>y (point (result ! j)) - y (point c)\<bar> < 5)"
      by simp
    then show ?thesis using 0 Cons.prems(1) by (simp add: nth_append)
  next
    case (Suc k')
    with Cons.prems have "addedInOrder roadList (result @ [c]) cs" "k' < length cs" by auto
    from Cons.IH [OF this] show ?thesis using Suc by simp
  qed
qed

lemma distance_ge_abs:
  "\<bar>x a - x b\<bar> \<le> distance a b" "\<bar>y a - y b\<bar> \<le> distance a b"
proof -
  have "\<bar>x a - x b\<bar> = sqrt ((x b - x a)\<^sup>2)" by (simp add: abs_minus_commute)
  also have "\<dots> \<le> distance a b" unfolding distance_def by (rule real_sqrt_le_mono) simp
  finally show "\<bar>x a - x b\<bar> \<le> distance a b" .
  have "\<bar>y a - y b\<bar> = sqrt ((y b - y a)\<^sup>2)" by (simp add: abs_minus_commute)
  also have "\<dots> \<le> distance a b" unfolding distance_def by (rule real_sqrt_le_mono) simp
  finally show "\<bar>y a - y b\<bar> \<le> distance a b" .
qed

text \<open>
  Claim C4, as the code has it. The output of \<^verbatim>\<open>findIntersections\<close> is the junctions
  followed by crossings. Every crossing is the line intersection of two straight roads
  of the road set, and it differs by at least 5 px in \<open>x\<close> or in \<open>y\<close> from every
  intersection recorded before it (every junction and every earlier crossing): it was
  added only because the test \<open>|dx| < 5 and |dy| < 5\<close> failed for all of them. Hence its
  Euclidean distance to each of them is at least 5 px.
\<close>

theorem findIntersections_crossings_apart:
  "\<exists>cs. findIntersections roadList = junctions roadList @ cs \<and>
     (\<forall>k < length cs.
        isCrossing roadList (point (cs ! k)) \<and>
        (\<forall>j < length (junctions roadList) + k.
           (\<bar>x (point (findIntersections roadList ! j)) - x (point (cs ! k))\<bar> \<ge> 5 \<or>
            \<bar>y (point (findIntersections roadList ! j)) - y (point (cs ! k))\<bar> \<ge> 5) \<and>
           distance (point (findIntersections roadList ! j)) (point (cs ! k)) \<ge> 5))"
proof -
  from crossingLoop_added [of roadList roadList "junctions roadList"] obtain cs where
    cs: "findIntersections roadList = junctions roadList @ cs"
      "addedInOrder roadList (junctions roadList) cs"
    by (auto simp: findIntersections_def)
  have "isCrossing roadList (point (cs ! k)) \<and>
        (\<forall>j < length (junctions roadList) + k.
           (\<bar>x (point (findIntersections roadList ! j)) - x (point (cs ! k))\<bar> \<ge> 5 \<or>
            \<bar>y (point (findIntersections roadList ! j)) - y (point (cs ! k))\<bar> \<ge> 5) \<and>
           distance (point (findIntersections roadList ! j)) (point (cs ! k)) \<ge> 5)"
    if k: "k < length cs" for k
  proof (intro conjI allI impI)
    from addedInOrder_nth [OF cs(2) k] show "isCrossing roadList (point (cs ! k))" by simp
  next
    fix j assume j: "j < length (junctions roadList) + k"
    let ?a = "point (findIntersections roadList ! j)" and ?b = "point (cs ! k)"
    from addedInOrder_nth [OF cs(2) k] j cs(1)
    show far: "\<bar>x ?a - x ?b\<bar> \<ge> 5 \<or> \<bar>y ?a - y ?b\<bar> \<ge> 5" by (auto simp: not_less)
    then show "distance ?a ?b \<ge> 5"
      using distance_ge_abs [of ?a ?b] by linarith
  qed
  with cs(1) show ?thesis by blast
qed

theorem findIntersections_crossings_apart_witness:
  "\<exists>cs. findIntersections roadsNearJunction = junctions roadsNearJunction @ cs \<and>
     length cs = 1 \<and> isCrossing roadsNearJunction (point (cs ! 0)) \<and>
     distance (point (findIntersections roadsNearJunction ! 0)) (point (cs ! 0)) \<ge> 5"
proof -
  from findIntersections_crossings_apart [of roadsNearJunction] obtain cs where
    cs: "findIntersections roadsNearJunction = junctions roadsNearJunction @ cs" and
    a: "\<forall>k < length cs.
        isCrossing roadsNearJunction (point (cs ! k)) \<and>
        (\<forall>j < length (junctions roadsNearJunction) + k.
           (\<bar>x (point (findIntersections roadsNearJunction ! j)) - x (point (cs ! k))\<bar> \<ge> 5 \<or>
            \<bar>y (point (findIntersections roadsNearJunction ! j)) - y (point (cs ! k))\<bar> \<ge> 5) \<and>
           distance (point (findIntersections roadsNearJunction ! j)) (point (cs ! k)) \<ge> 5)"
    by blast
  have f: "findIntersections roadsNearJunction =
      [\<lparr>point = \<lparr>x = 0, y = 0\<rparr>, vehicleCount = 0\<rparr>, \<lparr>point = \<lparr>x = 5, y = 0\<rparr>, vehicleCount = 0\<rparr>]"
    by (simp add: roadsNearJunction_def builder_eval geometry_eval)
  have j: "junctions roadsNearJunction = [\<lparr>point = \<lparr>x = 0, y = 0\<rparr>, vehicleCount = 0\<rparr>]"
    by (simp add: roadsNearJunction_def builder_eval)
  from cs f j have "cs = [\<lparr>point = \<lparr>x = 5, y = 0\<rparr>, vehicleCount = 0\<rparr>]" by simp
  then have l: "length cs = 1" by simp
  with a j have "isCrossing roadsNearJunction (point (cs ! 0))"
    "distance (point (findIntersections roadsNearJunction ! 0)) (point (cs ! 0)) \<ge> 5"
    by simp_all
  with cs l show ?thesis by blast
qed

text \<open>
  The crossing at (5,0) is recorded after the junction at (0,0): the difference in \<open>x\<close>
  is 5, which is not below 5. Its distance to the junction is 5 px, not more.
\<close>

theorem findIntersections_farther_counterexample:
  "findIntersections roadsNearJunction =
     [\<lparr>point = \<lparr>x = 0, y = 0\<rparr>, vehicleCount = 0\<rparr>, \<lparr>point = \<lparr>x = 5, y = 0\<rparr>, vehicleCount = 0\<rparr>]
   \<and> junctions roadsNearJunction = [\<lparr>point = \<lparr>x = 0, y = 0\<rparr>, vehicleCount = 0\<rparr>]
   \<and> \<not> distance \<lparr>x = 0, y = 0\<rparr> \<lparr>x = 5, y = 0\<rparr> > 5"
  by (simp add: roadsNearJunction_def builder_eval geometry_eval)

section \<open>Breadth-first search returns a path with the fewest edges\<close>

inductive_cases reach_zeroE: "reach conn s 0 v"
inductive_cases reach_SucE: "reach conn s (Suc n) v"


lemma point_eq_iff: "(x p = x q \<and> y p = y q) = (p = (q::point))"
  by (cases p, cases q) auto

lemma isPath_nonempty: "isPath conn q \<Longrightarrow> q \<noteq> []"
  by auto

lemma isPath_snoc:
  "isPath conn q \<Longrightarrow> v \<in> set (adjacent conn (last q)) \<Longrightarrow> isPath conn (q @ [v])"
  by (induction conn q rule: isPath.induct) auto

lemma isPath_butlast:
  "isPath conn (q @ [v]) \<Longrightarrow> q \<noteq> [] \<Longrightarrow> isPath conn q \<and> v \<in> set (adjacent conn (last q))"
  by (induction conn q rule: isPath.induct) auto

lemma isPath_reach: "isPath conn q \<Longrightarrow> reach conn (hd q) (length q - 1) (last q)"
proof (induction q rule: rev_induct)
  case Nil
  then show ?case by simp
next
  case (snoc v q)
  show ?case
  proof (cases "q = []")
    case True
    then show ?thesis by (simp add: reach_start)
  next
    case False
    from isPath_butlast [OF snoc.prems False] snoc.IH
    have "reach conn (hd q) (length q - 1) (last q)" "v \<in> set (adjacent conn (last q))" by auto
    then have "reach conn (hd q) (Suc (length q - 1)) v" by (rule reach_step)
    with False show ?thesis by simp
  qed
qed

lemma sorted_const: "(\<forall>v \<in> set zs. v = (c::nat)) \<Longrightarrow> sorted zs"
  by (induction zs) auto

lemma bfsInv_init: "bfsInv conn s [(s, [s], [])] {s}"
  by (auto simp: bfsInv_def elim: reach_zeroE)

lemma bfsInv_head:
  assumes "bfsInv conn s ((p, pth, rs) # queue) visited"
  shows "isPath conn pth \<and> hd pth = s \<and> last pth = p \<and> (\<forall>n. reach conn s n p \<longrightarrow> length pth \<le> Suc n)"
  using assms by (simp add: bfsInv_def)

lemma bfsInv_step:
  assumes inv: "bfsInv conn s ((p, pth, rs) # queue) visited"
    and ex: "expand conn (p, pth, rs) queue visited = (queue', visited')"
  shows "bfsInv conn s queue' visited'"
proof -
  let ?L = "\<lambda>e::qentry. length (fst (snd e))"
  let ?ns = "neighborsOf conn p"
  from ex have "foldl (visitNeighbor pth rs) (queue, visited) ?ns = (queue', visited')"
    by (simp add: expand_def)
  from visit_fold [OF this] obtain new where
    v': "visited' = visited \<union> fst ` set ?ns" and q': "queue' = queue @ new" and
    fnew: "fst ` set new = fst ` set ?ns - visited" and
    enew: "\<forall>e \<in> set new. \<exists>n r. (n, r) \<in> set ?ns \<and> e = (n, pth @ [n], rs @ [r])"
    by blast
  have adjp: "set (adjacent conn p) = fst ` set ?ns" by (simp add: adjacent_def)
  from inv have
    i1: "\<forall>e \<in> set queue. isPath conn (fst (snd e)) \<and> hd (fst (snd e)) = s \<and> last (fst (snd e)) = fst e \<and>
        fst e \<in> visited \<and> (\<forall>n. reach conn s n (fst e) \<longrightarrow> ?L e \<le> Suc n)" and
    hp: "isPath conn pth" "hd pth = s" "last pth = p" and
    i2: "sorted (map ?L ((p, pth, rs) # queue))" and
    i3: "\<forall>e \<in> set queue. ?L e \<le> Suc (length pth)" and
    i4: "\<forall>n v. reach conn s n v \<and> Suc n \<le> length pth \<longrightarrow> v \<in> visited" and
    i5: "\<forall>v \<in> visited. v \<in> fst ` set ((p, pth, rs) # queue) \<or> set (adjacent conn v) \<subseteq> visited"
    by (simp_all add: bfsInv_def)
  have lnew: "?L e = Suc (length pth)" if "e \<in> set new" for e
    using enew that by fastforce
  have lold: "length pth \<le> ?L e" if "e \<in> set queue" for e
    using i2 that by simp
  have lall: "length pth \<le> ?L e \<and> ?L e \<le> Suc (length pth)" if "e \<in> set queue'" for e
  proof (cases "e \<in> set queue")
    case True
    with lold i3 show ?thesis by blast
  next
    case False
    with that q' have "e \<in> set new" by simp
    from lnew [OF this] show ?thesis by simp
  qed
  have c1: "isPath conn (fst (snd e)) \<and> hd (fst (snd e)) = s \<and> last (fst (snd e)) = fst e \<and>
        fst e \<in> visited' \<and> (\<forall>n. reach conn s n (fst e) \<longrightarrow> ?L e \<le> Suc n)"
    if "e \<in> set queue'" for e
  proof (cases "e \<in> set queue")
    case True
    with i1 v' show ?thesis by auto
  next
    case False
    with that q' have en: "e \<in> set new" by simp
    with enew obtain n r where n: "(n, r) \<in> set ?ns" "e = (n, pth @ [n], rs @ [r])" by blast
    from en fnew n have nv: "n \<notin> visited" by force
    have "n \<in> set (adjacent conn (last pth))" using n hp adjp by force
    then have "isPath conn (pth @ [n])" using hp isPath_snoc by blast
    moreover have "hd (pth @ [n]) = s" using hp isPath_nonempty [OF hp(1)] by simp
    moreover have "n \<in> visited'" using n v' by force
    moreover have "length (pth @ [n]) \<le> Suc m" if "reach conn s m n" for m
    proof (rule ccontr)
      assume "\<not> length (pth @ [n]) \<le> Suc m"
      then have "Suc m \<le> length pth" by simp
      with i4 that have "n \<in> visited" by blast
      with nv show False by simp
    qed
    ultimately show ?thesis using n by simp
  qed
  have c2: "sorted (map ?L queue')"
  proof -
    have "sorted (map ?L queue)" using i2 by simp
    moreover have "sorted (map ?L new)" by (rule sorted_const [of _ "Suc (length pth)"]) (auto simp: lnew)
    moreover have "\<forall>a \<in> set (map ?L queue). \<forall>b \<in> set (map ?L new). a \<le> b"
      using i3 lnew by auto
    ultimately show ?thesis unfolding q' by (simp add: sorted_append)
  qed
  have hdmin: "?L (hd queue') \<le> ?L e" if "e \<in> set queue'" for e
  proof -
    from that obtain a rest where ar: "queue' = a # rest" by (cases queue') auto
    with c2 that show ?thesis by auto
  qed
  have c3: "\<forall>e \<in> set queue'. ?L e \<le> Suc (?L (hd queue'))"
  proof
    fix e assume e: "e \<in> set queue'"
    then have "queue' \<noteq> []" by auto
    then have "hd queue' \<in> set queue'" by simp
    with lall have "length pth \<le> ?L (hd queue')" by blast
    with lall [OF e] show "?L e \<le> Suc (?L (hd queue'))" by simp
  qed
  have c5: "\<forall>v \<in> visited'. v \<in> fst ` set queue' \<or> set (adjacent conn v) \<subseteq> visited'"
  proof
    fix v assume "v \<in> visited'"
    then consider "v \<in> visited" | "v \<in> fst ` set ?ns - visited" using v' by auto
    then show "v \<in> fst ` set queue' \<or> set (adjacent conn v) \<subseteq> visited'"
    proof cases
      case 1
      with i5 consider "v = p" | "v \<in> fst ` set queue" | "set (adjacent conn v) \<subseteq> visited" by auto
      then show ?thesis
      proof cases
        case 1
        then show ?thesis using adjp v' by auto
      next
        case 2
        then show ?thesis using q' by auto
      next
        case 3
        then show ?thesis using v' by auto
      qed
    next
      case 2
      then show ?thesis using fnew q' by auto
    qed
  qed
  have c4: "v \<in> visited'" if ne: "queue' \<noteq> []" and r: "reach conn s n v" and
    le: "Suc n \<le> ?L (hd queue')" for n v
  proof (cases "Suc n \<le> length pth")
    case True
    with i4 r v' show ?thesis by blast
  next
    case False
    from ne have hin: "hd queue' \<in> set queue'" by simp
    from lall [OF hin] le False have n: "n = length pth" and h: "?L (hd queue') = Suc (length pth)"
      by auto
    from isPath_nonempty [OF hp(1)] obtain m where m: "length pth = Suc m" by (cases pth) auto
    from r n m obtain u where u: "reach conn s m u" "v \<in> set (adjacent conn u)"
      by (auto elim: reach_SucE)
    from u(1) m i4 have uv: "u \<in> visited" by auto
    with i5 consider "u = p" | "u \<in> fst ` set queue" | "set (adjacent conn u) \<subseteq> visited" by auto
    then show ?thesis
    proof cases
      case 1
      with u(2) adjp v' show ?thesis by auto
    next
      case 2
      then obtain e where e: "e \<in> set queue" "fst e = u" by auto
      with i1 u(1) have "?L e \<le> Suc m" by blast
      moreover from e q' have "e \<in> set queue'" by simp
      from hdmin [OF this] h have "Suc (length pth) \<le> ?L e" by simp
      ultimately show ?thesis using m by simp
    next
      case 3
      with u(2) v' show ?thesis by auto
    qed
  qed
  show ?thesis
    unfolding bfsInv_def using c1 c2 c3 c4 c5 by blast
qed

lemma bfs_shortest:
  "bfsInv conn s queue visited \<Longrightarrow> bfs conn e queue visited = Some pth \<Longrightarrow>
     isPath conn pth \<and> hd pth = s \<and> last pth = e \<and> (\<forall>n. reach conn s n e \<longrightarrow> length pth \<le> Suc n)"
proof (induction conn e queue visited rule: bfs.induct)
  case (1 conn endNode visited)
  then show ?case by simp
next
  case (2 conn endNode entry queue visited)
  obtain p pp rs where entry: "entry = (p, pp, rs)" by (cases entry)
  show ?case
  proof (cases "p = endNode")
    case True
    with "2.prems"(2) entry have "pth = pp" by simp
    with bfsInv_head [of conn s p pp rs queue visited] "2.prems"(1) entry True show ?thesis by simp
  next
    case False
    obtain queue' visited' where ex: "expand conn entry queue visited = (queue', visited')"
      by (cases "expand conn entry queue visited")
    from False have ne: "\<not> (x p = x endNode \<and> y p = y endNode)" by (simp add: point_eq_iff)
    from "2.prems"(2) entry ex ne have run: "bfs conn endNode queue' visited' = Some pth" by simp
    from bfsInv_step [of conn s p pp rs queue visited queue' visited'] "2.prems"(1) entry ex
    have "bfsInv conn s queue' visited'" by simp
    from "2.IH" [OF entry [symmetric] refl ne ex [symmetric] this run] show ?thesis .
  qed
qed


lemmas pathfinder_eval =
  allNodes_def endpointNodes_def setAdd_def crossingOf_def nodeConnections_def nodesOnRoad_def
  projectOnRoad_def List.map_filter_simps linkNodes_def ensureKey_def pushTo_def neighborsOf_def
  mapGet_def closer_def closestTo_def MAX_BUILDING_TO_ROAD_DISTANCE_def expand_def
  visitNeighbor_def findPath_def

lemma findPath_bfs:
  assumes "findPath startP endP roadList = Some p"
  shows "\<exists>a b. snapNode startP (allNodes roadList) = Some a \<and>
           snapNode endP (allNodes roadList) = Some b \<and>
           bfs (nodeConnections roadList) b [(a, [a], [])] {a} = Some p"
proof -
  from assms have ne: "roadList \<noteq> []" by (auto simp: findPath_def split: if_splits)
  from assms ne obtain a da b db where
    c: "closestTo startP (allNodes roadList) = Some (a, da)"
       "closestTo endP (allNodes roadList) = Some (b, db)"
    by (auto simp: findPath_def Let_def split: option.splits)
  with assms ne have "bfs (nodeConnections roadList) b [(a, [a], [])] {a} = Some p"
    by (auto simp: findPath_def Let_def split: if_splits)
  with c show ?thesis by (simp add: snapNode_def)
qed

text \<open>
  Claim C2. When \<^verbatim>\<open>findPath\<close> returns a path, both points were snapped to a node, the
  result is a path of the routable graph from the snapped start node to the snapped
  end node, and no path of that graph between the same two nodes has fewer edges.
\<close>

theorem findPath_fewest_edges:
  assumes "findPath startP endP roadList = Some p"
  shows "\<exists>a b. snapNode startP (allNodes roadList) = Some a \<and>
           snapNode endP (allNodes roadList) = Some b \<and>
           isPath (nodeConnections roadList) p \<and> hd p = a \<and> last p = b \<and>
           (\<forall>q. isPath (nodeConnections roadList) q \<and> hd q = a \<and> last q = b
                 \<longrightarrow> edgeCount p \<le> edgeCount q)"
proof -
  let ?conn = "nodeConnections roadList"
  from findPath_bfs [OF assms] obtain a b where
    ab: "snapNode startP (allNodes roadList) = Some a" "snapNode endP (allNodes roadList) = Some b" and
    run: "bfs ?conn b [(a, [a], [])] {a} = Some p"
    by blast
  from bfs_shortest [OF bfsInv_init run] have
    p: "isPath ?conn p" "hd p = a" "last p = b" and
    short: "\<forall>n. reach ?conn a n b \<longrightarrow> length p \<le> Suc n"
    by auto
  have "edgeCount p \<le> edgeCount q" if q: "isPath ?conn q" "hd q = a" "last q = b" for q
  proof -
    from isPath_reach [OF q(1)] q have "reach ?conn a (length q - 1) b" by simp
    with short have "length p \<le> Suc (length q - 1)" by blast
    then show ?thesis by (simp add: edgeCount_def)
  qed
  with ab p show ?thesis by blast
qed

lemma triangle_path:
  "findPath \<lparr>x = 0, y = 0\<rparr> \<lparr>x = 100, y = 100\<rparr> triangleRoads
     = Some [\<lparr>x = 0, y = 0\<rparr>, \<lparr>x = 100, y = 100\<rparr>]"
  by (simp add: triangleRoads_def pathfinder_eval geometry_eval)

lemma triangle_detour:
  "isPath (nodeConnections triangleRoads) [\<lparr>x = 0, y = 0\<rparr>, \<lparr>x = 100, y = 0\<rparr>, \<lparr>x = 100, y = 100\<rparr>]"
  by (simp add: triangleRoads_def pathfinder_eval geometry_eval adjacent_def)

lemma triangle_snap:
  "snapNode \<lparr>x = 0, y = 0\<rparr> (allNodes triangleRoads) = Some \<lparr>x = 0, y = 0\<rparr>"
  "snapNode \<lparr>x = 100, y = 100\<rparr> (allNodes triangleRoads) = Some \<lparr>x = 100, y = 100\<rparr>"
  by (simp_all add: triangleRoads_def snapNode_def pathfinder_eval geometry_eval)

theorem findPath_fewest_edges_witness:
  "findPath \<lparr>x = 0, y = 0\<rparr> \<lparr>x = 100, y = 100\<rparr> triangleRoads
     = Some [\<lparr>x = 0, y = 0\<rparr>, \<lparr>x = 100, y = 100\<rparr>] \<and>
   isPath (nodeConnections triangleRoads) [\<lparr>x = 0, y = 0\<rparr>, \<lparr>x = 100, y = 0\<rparr>, \<lparr>x = 100, y = 100\<rparr>] \<and>
   edgeCount [\<lparr>x = 0, y = 0\<rparr>, \<lparr>x = 100, y = 100\<rparr>]
     \<le> edgeCount [\<lparr>x = 0, y = 0\<rparr>, \<lparr>x = 100, y = 0\<rparr>, \<lparr>x = 100, y = 100\<rparr>]"
proof -
  from findPath_fewest_edges [OF triangle_path] triangle_snap
  have "\<forall>q. isPath (nodeConnections triangleRoads) q \<and> hd q = \<lparr>x = 0, y = 0\<rparr> \<and>
           last q = \<lparr>x = 100, y = 100\<rparr>
         \<longrightarrow> edgeCount [\<lparr>x = 0, y = 0\<rparr>, \<lparr>x = 100, y = 100\<rparr>] \<le> edgeCount q"
    by auto
  with triangle_detour triangle_path show ?thesis by simp
qed

section \<open>Returned paths do not repeat a node\<close>

lemma expand_distinct:
  assumes inv: "\<forall>e \<in> set ((p, pth, rs) # queue). distinct (fst (snd e)) \<and> set (fst (snd e)) \<subseteq> visited"
    and ex: "expand conn (p, pth, rs) queue visited = (queue', visited')"
  shows "\<forall>e \<in> set queue'. distinct (fst (snd e)) \<and> set (fst (snd e)) \<subseteq> visited'"
proof
  fix e assume e: "e \<in> set queue'"
  from ex have "foldl (visitNeighbor pth rs) (queue, visited) (neighborsOf conn p) = (queue', visited')"
    by (simp add: expand_def)
  from visit_fold [OF this] obtain new where
    v': "visited' = visited \<union> fst ` set (neighborsOf conn p)" and q': "queue' = queue @ new" and
    fnew: "fst ` set new = fst ` set (neighborsOf conn p) - visited" and
    enew: "\<forall>e \<in> set new. \<exists>n r. (n, r) \<in> set (neighborsOf conn p) \<and> e = (n, pth @ [n], rs @ [r])"
    by blast
  show "distinct (fst (snd e)) \<and> set (fst (snd e)) \<subseteq> visited'"
  proof (cases "e \<in> set queue")
    case True
    with inv v' show ?thesis by auto
  next
    case False
    with e q' have en: "e \<in> set new" by simp
    with enew obtain n r where n: "(n, r) \<in> set (neighborsOf conn p)" "e = (n, pth @ [n], rs @ [r])"
      by blast
    from en fnew n have "n \<notin> visited" by force
    moreover from inv have "distinct pth" "set pth \<subseteq> visited" by simp_all
    moreover have "n \<in> visited'" using n v' by force
    ultimately show ?thesis using n v' by auto
  qed
qed

lemma bfs_distinct:
  "\<forall>e \<in> set queue. distinct (fst (snd e)) \<and> set (fst (snd e)) \<subseteq> visited \<Longrightarrow>
     bfs conn e queue visited = Some pth \<Longrightarrow> distinct pth"
proof (induction conn e queue visited rule: bfs.induct)
  case (1 conn endNode visited)
  then show ?case by simp
next
  case (2 conn endNode entry queue visited)
  obtain p pp rs where entry: "entry = (p, pp, rs)" by (cases entry)
  show ?case
  proof (cases "x p = x endNode \<and> y p = y endNode")
    case True
    with "2.prems" entry show ?thesis by simp
  next
    case False
    obtain queue' visited' where ex: "expand conn entry queue visited = (queue', visited')"
      by (cases "expand conn entry queue visited")
    from "2.prems"(2) entry ex False have run: "bfs conn endNode queue' visited' = Some pth" by simp
    from expand_distinct [of p pp rs queue visited conn queue' visited'] "2.prems"(1) entry ex
    have "\<forall>e \<in> set queue'. distinct (fst (snd e)) \<and> set (fst (snd e)) \<subseteq> visited'" by simp
    from "2.IH" [OF entry [symmetric] refl False ex [symmetric] this run] show ?thesis .
  qed
qed

text \<open>
  Claim C10. Every path that \<^verbatim>\<open>findPath\<close> returns consists of pairwise distinct nodes:
  a node is marked visited when it is enqueued, and only unvisited nodes are appended
  to a path.
\<close>

theorem findPath_distinct:
  assumes "findPath startP endP roadList = Some p"
  shows "distinct p"
proof -
  from findPath_bfs [OF assms] obtain a b where
    "bfs (nodeConnections roadList) b [(a, [a], [])] {a} = Some p" by blast
  moreover have "\<forall>e \<in> set [(a, [a], [] :: road list)]. distinct (fst (snd e)) \<and> set (fst (snd e)) \<subseteq> {a}"
    by simp
  ultimately show ?thesis by (rule bfs_distinct [rotated])
qed

lemma cross_path:
  "findPath \<lparr>x = 0, y = 40\<rparr> \<lparr>x = 100, y = 110\<rparr> crossRoads
     = Some [\<lparr>x = 0, y = 50\<rparr>, \<lparr>x = 100, y = 50\<rparr>, \<lparr>x = 100, y = 100\<rparr>]"
  by (simp add: crossRoads_def pathfinder_eval geometry_eval)

theorem findPath_distinct_witness:
  "findPath \<lparr>x = 0, y = 40\<rparr> \<lparr>x = 100, y = 110\<rparr> crossRoads
     = Some [\<lparr>x = 0, y = 50\<rparr>, \<lparr>x = 100, y = 50\<rparr>, \<lparr>x = 100, y = 100\<rparr>] \<and>
   distinct [\<lparr>x = 0, y = 50\<rparr>, \<lparr>x = 100, y = 50\<rparr>, \<lparr>x = 100, y = (100::real)\<rparr>]"
  using findPath_distinct [OF cross_path] cross_path by simp

section \<open>Snapping to the nearest node\<close>

lemma set_setAdd: "set (setAdd k ks) = insert k (set ks)"
  by (auto simp: setAdd_def)

lemma set_foldl_setAdd: "set (foldl (\<lambda>nodes p. setAdd p nodes) init ps) = set init \<union> set ps"
  by (induction ps arbitrary: init) (auto simp: set_setAdd)

lemma endpointNodes_grows:
  "set init \<subseteq> set (foldl (\<lambda>allNodes road. setAdd (endp road) (setAdd (start road) allNodes)) init rs)"
proof (induction rs arbitrary: init)
  case Nil
  then show ?case by simp
next
  case (Cons r rs)
  have "set init \<subseteq> set (setAdd (endp r) (setAdd (start r) init))"
    by (auto simp: set_setAdd)
  also note Cons.IH [of "setAdd (endp r) (setAdd (start r) init)"]
  finally show ?case by simp
qed

lemma allNodes_nonempty:
  assumes "roadList \<noteq> []"
  shows "allNodes roadList \<noteq> []"
proof -
  from assms obtain r rs where r: "roadList = r # rs" by (cases roadList) auto
  have "start r \<in> set (setAdd (endp r) (setAdd (start r) []))" by (simp add: set_setAdd)
  with endpointNodes_grows [of "setAdd (endp r) (setAdd (start r) [])" rs]
  have "start r \<in> set (endpointNodes roadList)" by (auto simp: endpointNodes_def r)
  then have "start r \<in> set (allNodes roadList)" by (simp add: allNodes_def set_foldl_setAdd)
  then show ?thesis by auto
qed

lemma closestTo_index:
  "nodes \<noteq> [] \<Longrightarrow>
    \<exists>i < length nodes. closestTo target nodes = Some (nodes ! i, distance (nodes ! i) target) \<and>
      (\<forall>j < length nodes. distance (nodes ! i) target \<le> distance (nodes ! j) target) \<and>
      (\<forall>j < i. distance (nodes ! i) target < distance (nodes ! j) target)"
proof (induction nodes rule: rev_induct)
  case Nil
  then show ?case by simp
next
  case (snoc n ns)
  show ?case
  proof (cases "ns = []")
    case True
    then show ?thesis by (simp add: closestTo_def closer_def)
  next
    case False
    from snoc.IH [OF False] obtain i where i: "i < length ns"
      "closestTo target ns = Some (ns ! i, distance (ns ! i) target)"
      "\<forall>j < length ns. distance (ns ! i) target \<le> distance (ns ! j) target"
      "\<forall>j < i. distance (ns ! i) target < distance (ns ! j) target"
      by blast
    have step: "closestTo target (ns @ [n]) = closer target (closestTo target ns) n"
      by (simp add: closestTo_def)
    show ?thesis
    proof (cases "distance n target < distance (ns ! i) target")
      case True
      with step i(2) have "closestTo target (ns @ [n]) = Some (n, distance n target)"
        by (simp add: closer_def)
      moreover have "\<forall>j < length (ns @ [n]). distance n target \<le> distance ((ns @ [n]) ! j) target"
        using True i(3) by (auto simp: nth_append less_Suc_eq)
      moreover have "\<forall>j < length ns. distance n target < distance ((ns @ [n]) ! j) target"
        using True i(3) by (auto simp: nth_append intro: less_le_trans)
      ultimately show ?thesis
        by (intro exI [of _ "length ns"]) simp
    next
      case False
      with step i(2) have "closestTo target (ns @ [n]) = Some (ns ! i, distance (ns ! i) target)"
        by (simp add: closer_def)
      moreover have "\<forall>j < length (ns @ [n]). distance (ns ! i) target \<le> distance ((ns @ [n]) ! j) target"
        using False i(3) by (auto simp: nth_append less_Suc_eq)
      moreover have "\<forall>j < i. distance (ns ! i) target < distance ((ns @ [n]) ! j) target"
        using i(1,4) by (auto simp: nth_append)
      ultimately show ?thesis using i(1)
        by (intro exI [of _ i]) (simp add: nth_append)
    qed
  qed
qed

lemma snapNode_firstNearest:
  assumes "nodes \<noteq> []"
  shows "\<exists>a. firstNearest target nodes = Some a \<and> snapNode target nodes = Some a \<and>
           closestTo target nodes = Some (a, distance a target)"
proof -
  from closestTo_index [OF assms, of target] obtain i where i: "i < length nodes"
    "closestTo target nodes = Some (nodes ! i, distance (nodes ! i) target)"
    "\<forall>j < length nodes. distance (nodes ! i) target \<le> distance (nodes ! j) target"
    "\<forall>j < i. distance (nodes ! i) target < distance (nodes ! j) target"
    by blast
  let ?P = "\<lambda>n. \<forall>m \<in> set nodes. distance n target \<le> distance m target"
  have "?P (nodes ! i)" using i(3) by (auto simp: in_set_conv_nth)
  moreover have "\<not> ?P (nodes ! j)" if "j < i" for j
    using i(1,4) that by (metis not_less nth_mem)
  ultimately have "find ?P nodes = Some (nodes ! i)"
    using i(1) by (auto simp: find_Some_iff)
  with i(2) show ?thesis by (simp add: firstNearest_def snapNode_def)
qed

text \<open>
  Claim C3. For a non-empty road set both points are snapped to a node, and the node
  chosen is the first one in insertion order among the nodes at the least distance
  (a later node replaces the choice only when it is strictly closer). When the start's
  nearest node or the end's nearest node is farther away than 50 px, \<^verbatim>\<open>findPath\<close>
  returns no path.
\<close>

theorem findPath_snap_limit:
  assumes "roadList \<noteq> []"
  shows "\<exists>a b. firstNearest startP (allNodes roadList) = Some a \<and>
           firstNearest endP (allNodes roadList) = Some b \<and>
           snapNode startP (allNodes roadList) = Some a \<and>
           snapNode endP (allNodes roadList) = Some b \<and>
           (distance a startP > 50 \<or> distance b endP > 50
              \<longrightarrow> findPath startP endP roadList = None)"
proof -
  from allNodes_nonempty [OF assms] have ne: "allNodes roadList \<noteq> []" .
  from snapNode_firstNearest [OF ne, of startP] obtain a where
    a: "firstNearest startP (allNodes roadList) = Some a" "snapNode startP (allNodes roadList) = Some a"
       "closestTo startP (allNodes roadList) = Some (a, distance a startP)"
    by blast
  from snapNode_firstNearest [OF ne, of endP] obtain b where
    b: "firstNearest endP (allNodes roadList) = Some b" "snapNode endP (allNodes roadList) = Some b"
       "closestTo endP (allNodes roadList) = Some (b, distance b endP)"
    by blast
  have "findPath startP endP roadList = None" if "distance a startP > 50 \<or> distance b endP > 50"
    using that a(3) b(3) assms
    by (auto simp: findPath_def Let_def MAX_BUILDING_TO_ROAD_DISTANCE_def)
  with a b show ?thesis by blast
qed

theorem findPath_snap_limit_witness:
  "oneRoad \<noteq> [] \<and>
   firstNearest \<lparr>x = 50, y = 20\<rparr> (allNodes oneRoad) = Some \<lparr>x = 0, y = 0\<rparr> \<and>
   snapNode \<lparr>x = 50, y = 20\<rparr> (allNodes oneRoad) = Some \<lparr>x = 0, y = 0\<rparr> \<and>
   distance \<lparr>x = 0, y = 0\<rparr> \<lparr>x = 50, y = 20\<rparr> = distance \<lparr>x = 100, y = 0\<rparr> \<lparr>x = 50, y = 20\<rparr> \<and>
   distance \<lparr>x = 0, y = 0\<rparr> \<lparr>x = 50, y = 20\<rparr> > 50 \<and>
   findPath \<lparr>x = 50, y = 20\<rparr> \<lparr>x = 100, y = 0\<rparr> oneRoad = None"
proof -
  have ne: "oneRoad \<noteq> []" by (simp add: oneRoad_def)
  have n: "allNodes oneRoad = [\<lparr>x = 0, y = 0\<rparr>, \<lparr>x = 100, y = 0\<rparr>]"
    by (simp add: oneRoad_def pathfinder_eval)
  have f: "firstNearest \<lparr>x = 50, y = 20\<rparr> (allNodes oneRoad) = Some \<lparr>x = 0, y = 0\<rparr>"
    unfolding n by (simp add: firstNearest_def distance_def)
  have d: "distance \<lparr>x = 0, y = 0\<rparr> \<lparr>x = 50, y = 20\<rparr> > 50"
    by (simp add: geometry_eval)
  have e: "distance \<lparr>x = 0, y = 0\<rparr> \<lparr>x = 50, y = 20\<rparr> = distance \<lparr>x = 100, y = 0\<rparr> \<lparr>x = 50, y = 20\<rparr>"
    by (simp add: distance_def)
  from findPath_snap_limit [OF ne, of "\<lparr>x = 50, y = 20\<rparr>" "\<lparr>x = 100, y = 0\<rparr>"] f d
  have "snapNode \<lparr>x = 50, y = 20\<rparr> (allNodes oneRoad) = Some \<lparr>x = 0, y = 0\<rparr>"
    "findPath \<lparr>x = 50, y = 20\<rparr> \<lparr>x = 100, y = 0\<rparr> oneRoad = None"
    by auto
  with ne f d e show ?thesis by simp
qed

section \<open>Two runs of the path finder agree\<close>








section \<open>Zero-length vectors\<close>









section \<open>The tick and its vehicles\<close>

lemma gameTick_vehicles:
  "fst (gameTick K w currentTime prevVehicles)
     = List.map_filter (\<lambda>vehicle. fst (stepInTick K w currentTime prevVehicles vehicle)) prevVehicles"
  by (simp add: gameTick_def stepInTick_def vehiclesWithArrivalTimes_def Let_def
      List.map_filter_def comp_def filter_map)


lemma stepInTick_in_gameTick:
  assumes "vehicle \<in> set prevVehicles"
    and "fst (stepInTick K w currentTime prevVehicles vehicle) = Some v'"
  shows "v' \<in> set (fst (gameTick K w currentTime prevVehicles))"
  using assms unfolding gameTick_vehicles by (force simp: List.map_filter_def)

lemma updateArrivalTimes_fields:
  "vid (updateArrivalTimes ints t v) = vid v"
  "status (updateArrivalTimes ints t v) = status v"
  "position (updateArrivalTimes ints t v) = position v"
  "targetIndex (updateArrivalTimes ints t v) = targetIndex v"
  "path (updateArrivalTimes ints t v) = path v"
  "officeArrivalTime (updateArrivalTimes ints t v) = officeArrivalTime v"
  "fromBuilding (updateArrivalTimes ints t v) = fromBuilding v"
  "toBuilding (updateArrivalTimes ints t v) = toBuilding v"
  by (simp_all add: updateArrivalTimes_def)

lemma updateArrivalTimes_idle: "\<not> enRoute v \<Longrightarrow> updateArrivalTimes ints t v = v"
  by (simp add: updateArrivalTimes_def)

section \<open>Right of way\<close>

lemma find_by_vid:
  "distinct (map vid vs) \<Longrightarrow> v \<in> set vs \<Longrightarrow> find (\<lambda>u. vid u = vid v) vs = Some v"
proof (induction vs)
  case Nil
  then show ?case by simp
next
  case (Cons u vs)
  show ?case
  proof (cases "v = u")
    case True
    then show ?thesis by simp
  next
    case False
    with Cons.prems have "v \<in> set vs" by simp
    with Cons.prems have "vid u \<noteq> vid v" by force
    with Cons \<open>v \<in> set vs\<close> show ?thesis by simp
  qed
qed

lemma filter_queueEntries:
  assumes "distinct (map vid vs)"
  shows "set us \<subseteq> set vs \<Longrightarrow>
    filter (\<lambda>q. case find (\<lambda>v. vid v = fst q) vs of
                   None \<Rightarrow> False
                 | Some otherVehicle \<Rightarrow> status otherVehicle = status vehicle) (queueEntries us key)
    = concat (map (\<lambda>v. case intersectionArrivalTimes v key of
                         None \<Rightarrow> []
                       | Some arrivalTime \<Rightarrow> [(vid v, arrivalTime)])
        (filter (\<lambda>v. enRoute v \<and> status v = status vehicle) us))"
proof (induction us)
  case Nil
  then show ?case by (simp add: queueEntries_def)
next
  case (Cons u us)
  then have u: "u \<in> set vs" and us: "set us \<subseteq> set vs" by auto
  from find_by_vid [OF assms u] have f: "find (\<lambda>v. vid v = vid u) vs = Some u" .
  have split: "queueEntries (u # us) key
      = (if \<not> enRoute u then []
         else (case intersectionArrivalTimes u key of None \<Rightarrow> [] | Some t \<Rightarrow> [(vid u, t)]))
        @ queueEntries us key"
    by (simp add: queueEntries_def)
  show ?case
    unfolding split using Cons.IH [OF us] f
    by (auto split: option.splits)
qed

lemma sameDirectionQueue_entries:
  assumes "distinct (map vid vs)"
  shows "sameDirectionQueue vs vehicle (intersectionQueue vs key) = sameStatusEntries vs vehicle key"
  unfolding sameDirectionQueue_def intersectionQueue_def sameStatusEntries_def filter_sort
  using filter_queueEntries [OF assms, of vs vehicle key] by simp

lemma stopLine_rule:
  assumes "distinct (map vid vs)"
  shows "stopLine vs vehicle flag i
    = (flag \<or> inApproachBand vehicle i \<and> (blockedInside vs vehicle i \<or> notFirstInQueue vs vehicle i))"
proof -
  let ?queue = "intersectionQueue vs (point i)"
  let ?sdq = "sameDirectionQueue vs vehicle ?queue"
  have sdq: "?sdq = sameStatusEntries vs vehicle (point i)"
    by (rule sameDirectionQueue_entries [OF assms])
  have len: "length ?sdq \<le> length ?queue"
    by (simp add: sameDirectionQueue_def)
  have first: "?sdq ! 0 = hd ?sdq" if "2 \<le> length ?sdq"
    using that by (cases ?sdq) auto
  have b: "notFirstInQueue vs vehicle i
      = (2 \<le> length ?queue \<and> 2 \<le> length ?sdq \<and> fst (?sdq ! 0) \<noteq> vid vehicle)"
    unfolding notFirstInQueue_def sdq [symmetric] using len first by auto
  have a: "blockedInside vs vehicle i = sameDirectionInIntersection vs vehicle i"
    by (simp add: blockedInside_def sameDirectionInIntersection_def list_ex_iff)
  show ?thesis
    unfolding a b by (auto simp: stopLine_def inApproachBand_def Let_def)
qed

lemma foldl_stopLine:
  assumes "distinct (map vid vs)"
  shows "foldl (stopLine vs vehicle) flag ints
    = (flag \<or> (\<exists>i \<in> set ints. inApproachBand vehicle i \<and>
                  (blockedInside vs vehicle i \<or> notFirstInQueue vs vehicle i)))"
  by (induction ints arbitrary: flag) (auto simp: stopLine_rule [OF assms])

lemma shouldWait_rule:
  assumes "distinct (map vid vs)"
  shows "shouldWait ints vs vehicle
    = (\<not> withinInnerRadius ints vehicle \<and>
       (\<exists>i \<in> set ints. inApproachBand vehicle i \<and>
          (blockedInside vs vehicle i \<or> notFirstInQueue vs vehicle i)))"
  by (simp add: shouldWait_def insideIntersection_def withinInnerRadius_def list_ex_iff
      foldl_stopLine [OF assms])

lemma snapshot_distinct:
  "distinct (map vid (vehiclesWithArrivalTimes w t vs)) = distinct (map vid vs)"
  by (simp add: vehiclesWithArrivalTimes_def comp_def updateArrivalTimes_fields)

text \<open>
  Claim C5, as the code has it. Take a tick over vehicles with distinct ids and one of
  them that is en route and has not passed the end of its path. If its position is
  within 15 px of some intersection, it is not marked waiting: it moves. Otherwise it is
  marked waiting exactly when, for at least one intersection at a distance in [15, 35)
  from it, (a) another vehicle with the same status is within 15 px of that
  intersection, or (b) the entries of that intersection's queue for vehicles of the same
  status are at least two and the earliest of them is not this vehicle's; if there is
  no such intersection, it moves. The outcome is in the vehicle list of the tick.
\<close>

theorem right_of_way:
  assumes "distinct (map vid prevVehicles)" and "vehicle \<in> set prevVehicles"
    and "enRoute vehicle" and "targetIndex vehicle < length (path vehicle)"
  shows "stepInTick K w currentTime prevVehicles vehicle =
      (if withinInnerRadius (intersections w) vehicle
       then (Some (moveVehicle K (updateArrivalTimes (intersections w) currentTime vehicle)), 0)
       else if \<exists>i \<in> set (intersections w). inApproachBand vehicle i \<and>
                 (blockedInside (vehiclesWithArrivalTimes w currentTime prevVehicles)
                    (updateArrivalTimes (intersections w) currentTime vehicle) i \<or>
                  notFirstInQueue (vehiclesWithArrivalTimes w currentTime prevVehicles)
                    (updateArrivalTimes (intersections w) currentTime vehicle) i)
       then (Some (waitVehicle (updateArrivalTimes (intersections w) currentTime vehicle)), 0)
       else (Some (moveVehicle K (updateArrivalTimes (intersections w) currentTime vehicle)), 0))
    \<and> (\<exists>v'. fst (stepInTick K w currentTime prevVehicles vehicle) = Some v' \<and>
             v' \<in> set (fst (gameTick K w currentTime prevVehicles)))"
proof -
  let ?vs = "vehiclesWithArrivalTimes w currentTime prevVehicles"
  let ?v = "updateArrivalTimes (intersections w) currentTime vehicle"
  have d: "distinct (map vid ?vs)" using assms(1) by (simp add: snapshot_distinct)
  have st: "status ?v \<noteq> AtOffice" "status ?v \<noteq> AtHome"
    using assms(3) by (auto simp: updateArrivalTimes_fields enRoute_def)
  have ti: "\<not> targetIndex ?v \<ge> length (path ?v)"
    using assms(4) by (simp add: updateArrivalTimes_fields)
  have w: "withinInnerRadius (intersections w) ?v = withinInnerRadius (intersections w) vehicle"
    by (simp add: withinInnerRadius_def updateArrivalTimes_fields)
  have b: "inApproachBand ?v i = inApproachBand vehicle i" for i
    by (simp add: inApproachBand_def updateArrivalTimes_fields)
  have step: "stepInTick K w currentTime prevVehicles vehicle
      = (if shouldWait (intersections w) ?vs ?v then (Some (waitVehicle ?v), 0)
         else (Some (moveVehicle K ?v), 0))"
    using st ti by (simp add: stepInTick_def stepVehicle_def)
  have first: "stepInTick K w currentTime prevVehicles vehicle =
      (if withinInnerRadius (intersections w) vehicle then (Some (moveVehicle K ?v), 0)
       else if \<exists>i \<in> set (intersections w). inApproachBand vehicle i \<and>
                 (blockedInside ?vs ?v i \<or> notFirstInQueue ?vs ?v i)
       then (Some (waitVehicle ?v), 0)
       else (Some (moveVehicle K ?v), 0))"
    unfolding step shouldWait_rule [OF d] w b by simp
  then obtain v' where "fst (stepInTick K w currentTime prevVehicles vehicle) = Some v'"
    by (auto split: if_splits)
  with stepInTick_in_gameTick [OF assms(2) this] first show ?thesis by blast
qed


lemmas scheduler_eval =
  stepInTick_def stepVehicle_def vehiclesWithArrivalTimes_def updateArrivalTimes_def
  recordArrival_def enRoute_def shouldWait_def insideIntersection_def stopLine_def
  sameDirectionInIntersection_def sameDirectionQueue_def intersectionQueue_def queueEntries_def
  inApproachBand_def withinInnerRadius_def blockedInside_def notFirstInQueue_def
  sameStatusEntries_def

lemma corridor_intersections: "findIntersections corridorRoads = intersections corridorWorld"
  by (simp add: corridorWorld_def corridorRoads_def builder_eval geometry_eval)

lemma corridor_band:
  "inApproachBand approachingCar \<lparr>point = \<lparr>x = 0, y = 0\<rparr>, vehicleCount = 0\<rparr>"
  by (simp add: approachingCar_def inApproachBand_def distance_def sqrt_less_numeral sqrt_ge_numeral)

lemma corridor_not_a:
  "\<not> blockedInside (vehiclesWithArrivalTimes corridorWorld 1000 [approachingCar, insideCar])
       (updateArrivalTimes (intersections corridorWorld) 1000 approachingCar)
       \<lparr>point = \<lparr>x = 0, y = 0\<rparr>, vehicleCount = 0\<rparr>"
  by (simp add: approachingCar_def insideCar_def corridorWorld_def scheduler_eval distance_def
      sqrt_less_numeral sqrt_ge_numeral)

lemma corridor_not_b:
  "\<not> notFirstInQueue (vehiclesWithArrivalTimes corridorWorld 1000 [approachingCar, insideCar])
       (updateArrivalTimes (intersections corridorWorld) 1000 approachingCar)
       \<lparr>point = \<lparr>x = 0, y = 0\<rparr>, vehicleCount = 0\<rparr>"
  by (simp add: approachingCar_def insideCar_def corridorWorld_def scheduler_eval distance_def
      sqrt_less_numeral sqrt_ge_numeral)

lemma corridor_waits:
  "stepInTick exampleConstants corridorWorld 1000 [approachingCar, insideCar] approachingCar
     = (Some (waitVehicle (updateArrivalTimes (intersections corridorWorld) 1000 approachingCar)), 0)"
  by (simp add: approachingCar_def insideCar_def corridorWorld_def scheduler_eval distance_def
      sqrt_less_numeral sqrt_ge_numeral)


lemma corridor_inside:
  "withinInnerRadius (intersections corridorWorld) insideCar"
  by (simp add: insideCar_def corridorWorld_def withinInnerRadius_def distance_def)

lemma corridor_outside:
  "\<not> withinInnerRadius (intersections corridorWorld) approachingCar"
  by (simp add: approachingCar_def corridorWorld_def withinInnerRadius_def distance_def
      sqrt_less_numeral)

lemma corridor_blocked:
  "inApproachBand approachingCar \<lparr>point = \<lparr>x = 40, y = 0\<rparr>, vehicleCount = 0\<rparr> \<and>
   blockedInside (vehiclesWithArrivalTimes corridorWorld 1000 [approachingCar, insideCar])
       (updateArrivalTimes (intersections corridorWorld) 1000 approachingCar)
       \<lparr>point = \<lparr>x = 40, y = 0\<rparr>, vehicleCount = 0\<rparr>"
  by (simp add: approachingCar_def insideCar_def corridorWorld_def scheduler_eval distance_def
      sqrt_less_numeral sqrt_ge_numeral)

lemma corridor_cars:
  "distinct (map vid [approachingCar, insideCar])"
  "enRoute approachingCar" "targetIndex approachingCar < length (path approachingCar)"
  "enRoute insideCar" "targetIndex insideCar < length (path insideCar)"
  by (simp_all add: approachingCar_def insideCar_def enRoute_def)

theorem right_of_way_witness:
  "distinct (map vid [approachingCar, insideCar]) \<and>
   enRoute approachingCar \<and> targetIndex approachingCar < length (path approachingCar) \<and>
   enRoute insideCar \<and> targetIndex insideCar < length (path insideCar) \<and>
   withinInnerRadius (intersections corridorWorld) insideCar \<and>
   stepInTick exampleConstants corridorWorld 1000 [approachingCar, insideCar] insideCar
     = (Some (moveVehicle exampleConstants
          (updateArrivalTimes (intersections corridorWorld) 1000 insideCar)), 0) \<and>
   \<not> withinInnerRadius (intersections corridorWorld) approachingCar \<and>
   inApproachBand approachingCar \<lparr>point = \<lparr>x = 40, y = 0\<rparr>, vehicleCount = 0\<rparr> \<and>
   blockedInside (vehiclesWithArrivalTimes corridorWorld 1000 [approachingCar, insideCar])
       (updateArrivalTimes (intersections corridorWorld) 1000 approachingCar)
       \<lparr>point = \<lparr>x = 40, y = 0\<rparr>, vehicleCount = 0\<rparr> \<and>
   stepInTick exampleConstants corridorWorld 1000 [approachingCar, insideCar] approachingCar
     = (Some (waitVehicle (updateArrivalTimes (intersections corridorWorld) 1000 approachingCar)), 0)"
proof -
  have i2: "\<lparr>point = \<lparr>x = 40, y = 0\<rparr>, vehicleCount = 0\<rparr> \<in> set (intersections corridorWorld)"
    by (simp add: corridorWorld_def)
  have m1: "approachingCar \<in> set [approachingCar, insideCar]"
    and m2: "insideCar \<in> set [approachingCar, insideCar]" by simp_all
  from right_of_way [OF corridor_cars(1) m2 corridor_cars(4,5),
      of exampleConstants corridorWorld 1000] corridor_inside
  have inside: "stepInTick exampleConstants corridorWorld 1000 [approachingCar, insideCar] insideCar
     = (Some (moveVehicle exampleConstants
          (updateArrivalTimes (intersections corridorWorld) 1000 insideCar)), 0)"
    by simp
  from corridor_blocked i2 have
    "\<exists>i \<in> set (intersections corridorWorld). inApproachBand approachingCar i \<and>
       (blockedInside (vehiclesWithArrivalTimes corridorWorld 1000 [approachingCar, insideCar])
          (updateArrivalTimes (intersections corridorWorld) 1000 approachingCar) i \<or>
        notFirstInQueue (vehiclesWithArrivalTimes corridorWorld 1000 [approachingCar, insideCar])
          (updateArrivalTimes (intersections corridorWorld) 1000 approachingCar) i)"
    by blast
  with right_of_way [OF corridor_cars(1) m1 corridor_cars(2,3),
      of exampleConstants corridorWorld 1000] corridor_outside
  have waits: "stepInTick exampleConstants corridorWorld 1000 [approachingCar, insideCar] approachingCar
     = (Some (waitVehicle (updateArrivalTimes (intersections corridorWorld) 1000 approachingCar)), 0)"
    by simp
  from inside waits corridor_cars corridor_inside corridor_outside corridor_blocked
  show ?thesis by simp
qed

text \<open>
  Two junctions 40 px apart, one car 20 px from both and a second car of the same
  status on the second junction. The first car is in the approach band of the first
  junction, no other car is within 15 px of that junction and its queue holds one
  entry, yet the car is marked waiting: the second junction blocks it.
\<close>

theorem right_of_way_counterexample:
  "findIntersections (roads corridorWorld) = intersections corridorWorld \<and>
   \<lparr>point = \<lparr>x = 0, y = 0\<rparr>, vehicleCount = 0\<rparr> \<in> set (intersections corridorWorld) \<and>
   inApproachBand approachingCar \<lparr>point = \<lparr>x = 0, y = 0\<rparr>, vehicleCount = 0\<rparr> \<and>
   \<not> blockedInside (vehiclesWithArrivalTimes corridorWorld 1000 [approachingCar, insideCar])
       (updateArrivalTimes (intersections corridorWorld) 1000 approachingCar)
       \<lparr>point = \<lparr>x = 0, y = 0\<rparr>, vehicleCount = 0\<rparr> \<and>
   \<not> notFirstInQueue (vehiclesWithArrivalTimes corridorWorld 1000 [approachingCar, insideCar])
       (updateArrivalTimes (intersections corridorWorld) 1000 approachingCar)
       \<lparr>point = \<lparr>x = 0, y = 0\<rparr>, vehicleCount = 0\<rparr> \<and>
   stepInTick exampleConstants corridorWorld 1000 [approachingCar, insideCar] approachingCar
     = (Some (waitVehicle (updateArrivalTimes (intersections corridorWorld) 1000 approachingCar)), 0)"
proof -
  have "roads corridorWorld = corridorRoads" by (simp add: corridorWorld_def)
  moreover have "\<lparr>point = \<lparr>x = 0, y = 0\<rparr>, vehicleCount = 0\<rparr> \<in> set (intersections corridorWorld)"
    by (simp add: corridorWorld_def)
  ultimately show ?thesis
    using corridor_intersections corridor_band corridor_not_a corridor_not_b corridor_waits
    by simp
qed

section \<open>Vehicles that are at home\<close>










section \<open>Leaving the office\<close>

text \<open>
  Claim C7. For a vehicle of the tick whose status is \<^verbatim>\<open>at-office\<close>: when the time since
  its \<^verbatim>\<open>officeArrivalTime\<close> is at least \<^verbatim>\<open>OFFICE_WAIT_TIME\<close> and \<^verbatim>\<open>createReturnPath\<close> (the
  path from the position of its office to the position of its home) gives a path of at
  least two nodes, the tick turns it into a vehicle that is going home along that path,
  with target index 1, placed on the first node of the path, its intersection arrival
  times empty and every other field as before. Before the dwell has elapsed, or when
  there is no return path or only one of fewer than two nodes, the vehicle is returned
  unchanged. In both cases the result is in the vehicle list of the tick and adds
  nothing to the score.
\<close>

theorem at_office_transition:
  assumes "vehicle \<in> set prevVehicles" and "status vehicle = AtOffice"
  shows "(\<forall>returnPath.
            currentTime - officeArrivalTime vehicle \<ge> OFFICE_WAIT_TIME K \<and>
            createReturnPath w vehicle = Some returnPath \<and> length returnPath \<ge> 2
            \<longrightarrow> stepInTick K w currentTime prevVehicles vehicle =
                  (Some (vehicle\<lparr>status := GoingHome, path := returnPath, targetIndex := 1,
                                 position := returnPath ! 0,
                                 intersectionArrivalTimes := Map.empty\<rparr>), 0)) \<and>
         (currentTime - officeArrivalTime vehicle < OFFICE_WAIT_TIME K \<or>
          createReturnPath w vehicle = None \<or>
          (\<exists>returnPath. createReturnPath w vehicle = Some returnPath \<and> length returnPath < 2)
            \<longrightarrow> stepInTick K w currentTime prevVehicles vehicle = (Some vehicle, 0)) \<and>
         (\<exists>v'. fst (stepInTick K w currentTime prevVehicles vehicle) = Some v' \<and>
               v' \<in> set (fst (gameTick K w currentTime prevVehicles)))"
proof -
  have idle: "updateArrivalTimes (intersections w) currentTime vehicle = vehicle"
    using assms(2) by (simp add: updateArrivalTimes_idle enRoute_def)
  have step: "stepInTick K w currentTime prevVehicles vehicle =
      (if currentTime - officeArrivalTime vehicle \<ge> OFFICE_WAIT_TIME K then
         (case createReturnPath w vehicle of
            None \<Rightarrow> (Some vehicle, 0)
          | Some returnPath \<Rightarrow>
              if length returnPath \<ge> 2 then
                (Some (vehicle\<lparr>status := GoingHome, path := returnPath, targetIndex := 1,
                               position := returnPath ! 0,
                               intersectionArrivalTimes := Map.empty\<rparr>), 0)
              else (Some vehicle, 0))
       else (Some vehicle, 0))"
    using assms(2) by (simp add: stepInTick_def idle stepVehicle_def)
  have go: "stepInTick K w currentTime prevVehicles vehicle =
      (Some (vehicle\<lparr>status := GoingHome, path := returnPath, targetIndex := 1,
                     position := returnPath ! 0, intersectionArrivalTimes := Map.empty\<rparr>), 0)"
    if "currentTime - officeArrivalTime vehicle \<ge> OFFICE_WAIT_TIME K"
      "createReturnPath w vehicle = Some returnPath" "length returnPath \<ge> 2" for returnPath
    using that by (simp add: step)
  have stay: "stepInTick K w currentTime prevVehicles vehicle = (Some vehicle, 0)"
    if "currentTime - officeArrivalTime vehicle < OFFICE_WAIT_TIME K \<or>
        createReturnPath w vehicle = None \<or>
        (\<exists>returnPath. createReturnPath w vehicle = Some returnPath \<and> length returnPath < 2)"
    using that by (auto simp: step)
  have "\<exists>v'. fst (stepInTick K w currentTime prevVehicles vehicle) = Some v'"
    by (simp add: step split: option.splits)
  then obtain v' where v': "fst (stepInTick K w currentTime prevVehicles vehicle) = Some v'" ..
  from stepInTick_in_gameTick [OF assms(1) v'] v' go stay show ?thesis by blast
qed

lemma office_return_path:
  "createReturnPath officeWorld officeCar = Some [\<lparr>x = 100, y = 0\<rparr>, \<lparr>x = 0, y = 0\<rparr>]"
  by (simp add: createReturnPath_def officeWorld_def officeCar_def oneRoad_def pathfinder_eval
      geometry_eval)

theorem at_office_transition_witness:
  "officeCar \<in> set [officeCar] \<and> status officeCar = AtOffice \<and>
   4000 - officeArrivalTime officeCar = OFFICE_WAIT_TIME exampleConstants \<and>
   createReturnPath officeWorld officeCar = Some [\<lparr>x = 100, y = 0\<rparr>, \<lparr>x = 0, y = 0\<rparr>] \<and>
   stepInTick exampleConstants officeWorld 4000 [officeCar] officeCar =
     (Some (officeCar\<lparr>status := GoingHome, path := [\<lparr>x = 100, y = 0\<rparr>, \<lparr>x = 0, y = 0\<rparr>],
                      targetIndex := 1, position := \<lparr>x = 100, y = 0\<rparr>,
                      intersectionArrivalTimes := Map.empty\<rparr>), 0) \<and>
   stepInTick exampleConstants officeWorld 3999 [officeCar] officeCar = (Some officeCar, 0)"
proof -
  have m: "officeCar \<in> set [officeCar]" by simp
  have s: "status officeCar = AtOffice" by (simp add: officeCar_def)
  have d: "4000 - officeArrivalTime officeCar = OFFICE_WAIT_TIME exampleConstants"
    by (simp add: officeCar_def exampleConstants_def)
  have e: "3999 - officeArrivalTime officeCar < OFFICE_WAIT_TIME exampleConstants"
    by (simp add: officeCar_def exampleConstants_def)
  from at_office_transition [OF m s, where currentTime = 4000 and K = exampleConstants and w = officeWorld] d office_return_path
  have go: "stepInTick exampleConstants officeWorld 4000 [officeCar] officeCar =
     (Some (officeCar\<lparr>status := GoingHome, path := [\<lparr>x = 100, y = 0\<rparr>, \<lparr>x = 0, y = 0\<rparr>],
                      targetIndex := 1, position := \<lparr>x = 100, y = 0\<rparr>,
                      intersectionArrivalTimes := Map.empty\<rparr>), 0)"
    by simp
  from at_office_transition [OF m s, where currentTime = 3999 and K = exampleConstants and w = officeWorld] e
  have stay: "stepInTick exampleConstants officeWorld 3999 [officeCar] officeCar = (Some officeCar, 0)"
    by simp
  from m s d office_return_path go stay show ?thesis by simp
qed


end
